theory Spec2Isabelle
  imports Main
begin

section \<open>Data model\<close>

text \<open>
  Tool inputs, tool results, input schemas and server configurations are opaque payloads
  for the chat clients: they are only passed on, never inspected.
\<close>

type_synonym json = string

text \<open>
  A content block of a model response. The clients test \<open>content.type\<close> against
  \<open>'text'\<close> and \<open>'tool_use'\<close> with \<open>if\<close>/\<open>elif\<close> and no \<open>else\<close>, so a
  block of any other type is skipped; \<open>OtherBlock\<close> carries that type.
\<close>

datatype block =
    TextBlock string
  | ToolUseBlock string string json
  | OtherBlock string

fun is_text :: "block \<Rightarrow> bool" where
  "is_text (TextBlock t) = True"
| "is_text b = False"

fun is_tool_use :: "block \<Rightarrow> bool" where
  "is_tool_use (ToolUseBlock i n a) = True"
| "is_tool_use b = False"

text \<open>
  A transcript entry as the model API sees it: \<open>{'role': 'user', 'content': query}\<close>,
  \<open>{'role': 'assistant', 'content': [blocks]}\<close> and the user message holding one
  \<open>tool_result\<close> with its \<open>tool_use_id\<close> and content.
\<close>

datatype message =
    UserMessage string
  | AssistantMessage "block list"
  | ToolResultMessage string json

text \<open>
  Exceptions. \<open>KeyError\<close> is what the dictionary lookup
  \<open>self.tool_to_session[tool_name]\<close> raises for a missing key (the unknown-tool error).
  The other exceptions come from the libraries and are re-raised unchanged by the clients;
  they are classified by the call that raised them and carry its message.
\<close>

datatype error =
    KeyError string
  | ToolExecutionError string
  | ModelAPIError string
  | ConnectionError string
  | ConfigError string

type_synonym session = nat

text \<open>
  What \<open>session.call_tool\<close> returns when it does not raise: the result of the call,
  with its \<open>content\<close> and the flag \<open>isError\<close> that a server sets when the tool
  itself failed. The clients read \<open>result.content\<close> only.
\<close>

record call_result =
  isError :: bool
  content :: json

text \<open>
  The world outside the clients: the model API and the tool servers. The number of
  earlier calls is an argument of each, so that neither has to answer the same request
  the same way twice. \<open>Inl msg\<close> is a call that raised.
\<close>

record mcp_tool =
  tool_name :: string
  tool_description :: string
  inputSchema :: json

record world =
  complete :: "nat \<Rightarrow> message list \<Rightarrow> string + block list"
  call_tool :: "session \<Rightarrow> nat \<Rightarrow> string \<Rightarrow> json \<Rightarrow> string + call_result"
  launch :: "string \<Rightarrow> json \<Rightarrow> string + session"
  list_tools :: "session \<Rightarrow> string + mcp_tool list"

text \<open>What the clients print, in order.\<close>

datatype event =
    PrintStart string
  | PrintIteration nat
  | PrintSending
  | PrintReceived nat
  | PrintApiError string
  | PrintResponse string
  | PrintComplete
  | PrintExecutingTool string json
  | PrintToolSuccess
  | PrintToolFailed string
  | PrintMaxIterations
  | PrintQueryError error
  | PrintAssistant string


section \<open>The single-server client (chatbot_mcp_tools.py)\<close>

text \<open>
  The state of one turn: the local list \<open>messages\<close>, the console, and two traces of the
  calls that left the process: the tool invocations (name and arguments) and the
  transcripts sent to the model.
\<close>

record sturn =
  messages_s :: "message list"
  out_s :: "event list"
  calls_s :: "(string \<times> json) list"
  requests_s :: "message list list"

definition emit_s :: "event \<Rightarrow> sturn \<Rightarrow> sturn" where
  "emit_s e st = st\<lparr>out_s := out_s st @ [e]\<rparr>"

definition max_iterations :: nat where
  "max_iterations = 10"

text \<open>\<open>_get_claude_response\<close>: the request, and the \<open>except\<close> that prints and re-raises.\<close>

definition get_claude_response_s :: "world \<Rightarrow> sturn \<Rightarrow> (error + block list) \<times> sturn" where
  "get_claude_response_s w st =
     (let st1 = (emit_s PrintSending st)\<lparr>requests_s := requests_s st @ [messages_s st]\<rparr> in
      case complete w (length (requests_s st)) (messages_s st) of
        Inl m \<Rightarrow> (Inl (ModelAPIError m), emit_s (PrintApiError m) st1)
      | Inr response \<Rightarrow> (Inr response, emit_s (PrintReceived (length response)) st1))"

text \<open>
  \<open>_process_content_blocks\<close>: the \<open>for\<close> loop over \<open>response.content\<close>. \<open>n\<close> is
  \<open>len(response.content)\<close>, the second list is what the loop has still to visit.
\<close>

fun process_blocks_s :: "world \<Rightarrow> session \<Rightarrow> nat \<Rightarrow> block list \<Rightarrow> sturn \<Rightarrow> (error + bool) \<times> sturn" where
  "process_blocks_s w s n [] st = (Inr False, st)"
| "process_blocks_s w s n (TextBlock t # cs) st =
     (let st1 = emit_s (PrintResponse t) st in
      if n = 1 then (Inr False, emit_s PrintComplete st1)
      else process_blocks_s w s n cs st1)"
| "process_blocks_s w s n (ToolUseBlock i nm a # cs) st =
     (let st1 = (emit_s (PrintExecutingTool nm a) st)\<lparr>calls_s := calls_s st @ [(nm, a)]\<rparr> in
      case call_tool w s (length (calls_s st)) nm a of
        Inl m \<Rightarrow> (Inl (ToolExecutionError m), emit_s (PrintToolFailed m) st1)
      | Inr result \<Rightarrow>
          (Inr True,
           emit_s PrintToolSuccess
             (st1\<lparr>messages_s := messages_s st1 @
                [AssistantMessage [ToolUseBlock i nm a], ToolResultMessage i (content result)]\<rparr>)))"
| "process_blocks_s w s n (OtherBlock ty # cs) st = process_blocks_s w s n cs st"

definition process_content_blocks :: "world \<Rightarrow> session \<Rightarrow> block list \<Rightarrow> sturn \<Rightarrow> (error + bool) \<times> sturn" where
  "process_content_blocks w s response st = process_blocks_s w s (length response) response st"

text \<open>
  One pass through the body of the \<open>while\<close> loop of \<open>process_query\<close>: the request and
  the processing of the response. It returns \<open>should_continue\<close>.
\<close>

definition loop_body_s :: "world \<Rightarrow> session \<Rightarrow> nat \<Rightarrow> sturn \<Rightarrow> (error + bool) \<times> sturn" where
  "loop_body_s w s iteration st =
     (case get_claude_response_s w (emit_s (PrintIteration iteration) st) of
        (Inl e, st1) \<Rightarrow> (Inl e, st1)
      | (Inr response, st1) \<Rightarrow> process_content_blocks w s response st1)"

text \<open>
  The \<open>while iteration <= max_iterations\<close> loop. It returns the value of \<open>iteration\<close>
  when the loop is left, by \<open>break\<close> or by its condition.
\<close>

function process_query_loop_s :: "world \<Rightarrow> session \<Rightarrow> nat \<Rightarrow> sturn \<Rightarrow> (error + nat) \<times> sturn" where
  "process_query_loop_s w s iteration st =
     (if iteration \<le> max_iterations then
        (case loop_body_s w s iteration st of
           (Inl e, st1) \<Rightarrow> (Inl e, st1)
         | (Inr should_continue, st1) \<Rightarrow>
             if \<not> should_continue then (Inr iteration, st1)
             else process_query_loop_s w s (iteration + 1) st1)
      else (Inr iteration, st))"
  by pat_completeness auto
termination
  by (relation "measure (\<lambda>(w, s, iteration, st). Suc max_iterations - iteration)") auto

declare process_query_loop_s.simps [simp del]

definition init_s :: "string \<Rightarrow> sturn" where
  "init_s query =
     \<lparr>messages_s = [UserMessage query], out_s = [PrintStart query], calls_s = [], requests_s = []\<rparr>"

text \<open>
  \<open>process_query\<close>: the warning after the loop, and the \<open>except\<close> around it that prints
  the error and re-raises it.
\<close>

definition process_query_s :: "world \<Rightarrow> session \<Rightarrow> string \<Rightarrow> (error + unit) \<times> sturn" where
  "process_query_s w s query =
     (case process_query_loop_s w s 1 (init_s query) of
        (Inl e, st) \<Rightarrow> (Inl e, emit_s (PrintQueryError e) st)
      | (Inr iteration, st) \<Rightarrow>
          if iteration > max_iterations then (Inr (), emit_s PrintMaxIterations st)
          else (Inr (), st))"


text \<open>
  \<open>connect_to_server_and_run\<close> fills \<open>self.available_tools\<close>, the catalog sent to the
  model with every request, from what the one session lists. Nothing else in this client
  keeps the names of the tools, and \<open>_process_content_blocks\<close> does not look at it.
\<close>

definition available_tools_s :: "world \<Rightarrow> session \<Rightarrow> string + (string \<times> string \<times> json) list" where
  "available_tools_s w s =
     (case list_tools w s of
        Inl m \<Rightarrow> Inl m
      | Inr tools \<Rightarrow> Inr (map (\<lambda>t. (tool_name t, tool_description t, inputSchema t)) tools))"


section \<open>The multi-server client (chatbot_mcp_multi.py)\<close>

subsection \<open>Connections and the tool registry\<close>

record tool_definition =
  td_name :: string
  td_description :: string
  td_input_schema :: json

text \<open>
  The fields of \<open>MCPChatBot\<close> that the client reads and writes, and a trace of the
  servers whose launch was attempted. \<open>tool_to_session\<close> is the dictionary from tool
  names to sessions.
\<close>

record bot =
  sessions :: "session list"
  available_tools :: "tool_definition list"
  tool_to_session :: "string \<rightharpoonup> session"
  launched :: "string list"

definition new_bot :: bot where
  "new_bot = \<lparr>sessions = [], available_tools = [], tool_to_session = Map.empty, launched = []\<rparr>"

text \<open>The \<open>for tool in tools\<close> loop of \<open>connect_to_server\<close>.\<close>

fun register_tools :: "session \<Rightarrow> mcp_tool list \<Rightarrow> bot \<Rightarrow> bot" where
  "register_tools s [] b = b"
| "register_tools s (t # ts) b =
     register_tools s ts
       (b\<lparr>tool_to_session := (tool_to_session b)(tool_name t \<mapsto> s),
          available_tools := available_tools b @
            [\<lparr>td_name = tool_name t, td_description = tool_description t,
              td_input_schema = inputSchema t\<rparr>]\<rparr>)"

text \<open>
  \<open>connect_to_server\<close>. \<open>launch\<close> stands for the server parameters, the transport, the
  session and its \<open>initialize\<close>; any of them may raise, and the \<open>except\<close> re-raises.
\<close>

definition connect_to_server :: "world \<Rightarrow> string \<Rightarrow> json \<Rightarrow> bot \<Rightarrow> (error + unit) \<times> bot" where
  "connect_to_server w server_name server_config b =
     (let b1 = b\<lparr>launched := launched b @ [server_name]\<rparr> in
      case launch w server_name server_config of
        Inl m \<Rightarrow> (Inl (ConnectionError m), b1)
      | Inr s \<Rightarrow>
          (let b2 = b1\<lparr>sessions := sessions b1 @ [s]\<rparr> in
           case list_tools w s of
             Inl m \<Rightarrow> (Inl (ConnectionError m), b2)
           | Inr tools \<Rightarrow> (Inr (), register_tools s tools b2)))"

text \<open>The \<open>for server_name, server_config in servers.items()\<close> loop.\<close>

fun connect_loop :: "world \<Rightarrow> (string \<times> json) list \<Rightarrow> bot \<Rightarrow> (error + unit) \<times> bot" where
  "connect_loop w [] b = (Inr (), b)"
| "connect_loop w ((server_name, server_config) # rest) b =
     (case connect_to_server w server_name server_config b of
        (Inl e, b1) \<Rightarrow> (Inl e, b1)
      | (Inr u, b1) \<Rightarrow> connect_loop w rest b1)"

text \<open>
  \<open>connect_to_servers\<close>. The argument is what opening and parsing
  \<open>server_config.json\<close> gives: an exception, or the value under the key
  \<open>mcpServers\<close> (in the order of the file) when the key is there;
  \<open>data.get("mcpServers", {})\<close> takes no servers when it is not.
\<close>

definition connect_to_servers ::
  "world \<Rightarrow> string + (string \<times> json) list option \<Rightarrow> bot \<Rightarrow> (error + unit) \<times> bot" where
  "connect_to_servers w file b =
     (case file of
        Inl m \<Rightarrow> (Inl (ConfigError m), b)
      | Inr data \<Rightarrow>
          (let servers = (case data of None \<Rightarrow> [] | Some v \<Rightarrow> v) in
           connect_loop w servers b))"

subsection \<open>The turn\<close>

text \<open>
  In this client the dictionary appended to \<open>messages\<close> for the assistant holds the
  list object \<open>assistant_content\<close> itself, and the loop goes on appending to that
  object. So the transcript is kept as the program has it: an assistant entry holds the
  address of its content list, and the lists live in a store.
\<close>

datatype entry =
    UserEntry string
  | AssistantEntry nat
  | ToolResultEntry string json

record mturn =
  messages :: "entry list"
  heap :: "block list list"
  out :: "event list"
  calls :: "(session \<times> string \<times> json) list"
  requests :: "message list list"

definition deref :: "block list list \<Rightarrow> nat \<Rightarrow> block list" where
  "deref h a = (if a < length h then h ! a else [])"

fun resolve :: "block list list \<Rightarrow> entry \<Rightarrow> message" where
  "resolve h (UserEntry q) = UserMessage q"
| "resolve h (AssistantEntry a) = AssistantMessage (deref h a)"
| "resolve h (ToolResultEntry i c) = ToolResultMessage i c"

text \<open>The transcript as a reader of \<open>messages\<close> sees it.\<close>

definition transcript :: "mturn \<Rightarrow> message list" where
  "transcript st = map (resolve (heap st)) (messages st)"

definition emit :: "event \<Rightarrow> mturn \<Rightarrow> mturn" where
  "emit e st = st\<lparr>out := out st @ [e]\<rparr>"

text \<open>\<open>assistant_content.append(content)\<close> on the list at address \<open>a\<close>.\<close>

definition append_content :: "nat \<Rightarrow> block \<Rightarrow> mturn \<Rightarrow> mturn" where
  "append_content a c st = st\<lparr>heap := (heap st)[a := deref (heap st) a @ [c]]\<rparr>"

definition get_claude_response :: "world \<Rightarrow> mturn \<Rightarrow> (error + block list) \<times> mturn" where
  "get_claude_response w st =
     (let st1 = st\<lparr>requests := requests st @ [transcript st]\<rparr> in
      case complete w (length (requests st)) (transcript st) of
        Inl m \<Rightarrow> (Inl (ModelAPIError m), st1)
      | Inr response \<Rightarrow> (Inr response, st1))"

text \<open>
  \<open>_handle_tool_call\<close> on a tool-use block with id \<open>i\<close>, name \<open>nm\<close> and input \<open>a\<close>.
\<close>

definition handle_tool_call ::
  "world \<Rightarrow> bot \<Rightarrow> string \<Rightarrow> string \<Rightarrow> json \<Rightarrow> mturn \<Rightarrow> (error + unit) \<times> mturn" where
  "handle_tool_call w b i nm a st =
     (case tool_to_session b nm of
        None \<Rightarrow> (Inl (KeyError nm), st)
      | Some s \<Rightarrow>
          (let st1 = st\<lparr>calls := calls st @ [(s, nm, a)]\<rparr> in
           case call_tool w s (length (calls st)) nm a of
             Inl m \<Rightarrow> (Inl (ToolExecutionError m), st1)
           | Inr result \<Rightarrow>
               (Inr (), st1\<lparr>messages := messages st1 @ [ToolResultEntry i (content result)]\<rparr>)))"

fun text_of :: "block \<Rightarrow> string" where
  "text_of (TextBlock t) = t"
| "text_of b = []"

text \<open>
  The \<open>for content in response.content\<close> loop of \<open>process_query\<close>. \<open>response\<close> is
  \<open>response.content\<close>, \<open>ac\<close> the address of \<open>assistant_content\<close>, the second list
  what the loop has still to visit, and \<open>pq\<close> the flag \<open>process_query\<close>.
\<close>

fun process_blocks ::
  "world \<Rightarrow> bot \<Rightarrow> block list \<Rightarrow> nat \<Rightarrow> block list \<Rightarrow> bool \<Rightarrow> mturn \<Rightarrow> (error + bool) \<times> mturn" where
  "process_blocks w b response ac [] pq st = (Inr pq, st)"
| "process_blocks w b response ac (TextBlock t # cs) pq st =
     (let st1 = append_content ac (TextBlock t) (emit (PrintAssistant t) st);
          pq1 = (if length response = 1 then False else pq) in
      process_blocks w b response ac cs pq1 st1)"
| "process_blocks w b response ac (ToolUseBlock i nm a # cs) pq st =
     (let st1 = append_content ac (ToolUseBlock i nm a) st;
          st2 = st1\<lparr>messages := messages st1 @ [AssistantEntry ac]\<rparr> in
      case handle_tool_call w b i nm a st2 of
        (Inl e, st3) \<Rightarrow> (Inl e, st3)
      | (Inr u, st3) \<Rightarrow>
          (let (pq1, st4) =
                 (if length response = 1 \<and> is_text (response ! 0)
                  then (False, emit (PrintAssistant (text_of (response ! 0))) st3)
                  else (pq, st3)) in
           process_blocks w b response ac cs pq1 st4))"
| "process_blocks w b response ac (OtherBlock ty # cs) pq st =
     process_blocks w b response ac cs pq st"

text \<open>
  One pass through the body of \<open>while process_query\<close>: the request, the new empty
  list \<open>assistant_content\<close>, and the loop over the blocks. It returns the flag.
\<close>

definition loop_body :: "world \<Rightarrow> bot \<Rightarrow> mturn \<Rightarrow> (error + bool) \<times> mturn" where
  "loop_body w b st =
     (case get_claude_response w st of
        (Inl e, st1) \<Rightarrow> (Inl e, st1)
      | (Inr response, st1) \<Rightarrow>
          process_blocks w b response (length (heap st1)) response True
            (st1\<lparr>heap := heap st1 @ [[]]\<rparr>))"

text \<open>
  The \<open>while process_query\<close> loop. Nothing in the program bounds it, so the model takes
  the number of passes it may make: \<open>None\<close> is a loop still running after that many.
\<close>

fun process_query_loop :: "nat \<Rightarrow> world \<Rightarrow> bot \<Rightarrow> bool \<Rightarrow> mturn \<Rightarrow> ((error + unit) \<times> mturn) option" where
  "process_query_loop 0 w b pq st = (if pq then None else Some (Inr (), st))"
| "process_query_loop (Suc fuel) w b pq st =
     (if pq then
        (case loop_body w b st of
           (Inl e, st1) \<Rightarrow> Some (Inl e, st1)
         | (Inr pq1, st1) \<Rightarrow> process_query_loop fuel w b pq1 st1)
      else Some (Inr (), st))"

definition init :: "string \<Rightarrow> mturn" where
  "init query = \<lparr>messages = [UserEntry query], heap = [], out = [], calls = [], requests = []\<rparr>"

definition process_query :: "nat \<Rightarrow> world \<Rightarrow> bot \<Rightarrow> string \<Rightarrow> ((error + unit) \<times> mturn) option" where
  "process_query fuel w b query = process_query_loop fuel w b True (init query)"


section \<open>Reading a run\<close>

text \<open>The tool results in a transcript, as pairs of \<open>tool_use_id\<close> and content.\<close>

fun tool_results_s :: "message list \<Rightarrow> (string \<times> json) list" where
  "tool_results_s [] = []"
| "tool_results_s (ToolResultMessage i c # ms) = (i, c) # tool_results_s ms"
| "tool_results_s (UserMessage q # ms) = tool_results_s ms"
| "tool_results_s (AssistantMessage bs # ms) = tool_results_s ms"

fun tool_results :: "entry list \<Rightarrow> (string \<times> json) list" where
  "tool_results [] = []"
| "tool_results (ToolResultEntry i c # es) = (i, c) # tool_results es"
| "tool_results (UserEntry q # es) = tool_results es"
| "tool_results (AssistantEntry a # es) = tool_results es"

text \<open>The tool-use blocks of a response, in its order: id, name and input.\<close>

fun tool_uses :: "block list \<Rightarrow> (string \<times> string \<times> json) list" where
  "tool_uses [] = []"
| "tool_uses (ToolUseBlock i nm a # bs) = (i, nm, a) # tool_uses bs"
| "tool_uses (TextBlock t # bs) = tool_uses bs"
| "tool_uses (OtherBlock ty # bs) = tool_uses bs"

text \<open>
  What the world answered to the \<open>k\<close>-th tool invocation of a trace. The world is a
  function, so the trace of the calls determines which of them failed.
\<close>

definition answer_s :: "world \<Rightarrow> session \<Rightarrow> (string \<times> json) list \<Rightarrow> nat \<Rightarrow> string + call_result" where
  "answer_s w s cs k = call_tool w s k (fst (cs ! k)) (snd (cs ! k))"

definition answer :: "world \<Rightarrow> (session \<times> string \<times> json) list \<Rightarrow> nat \<Rightarrow> string + call_result" where
  "answer w cs k = call_tool w (fst (cs ! k)) k (fst (snd (cs ! k))) (snd (snd (cs ! k)))"

text \<open>An invocation went to the session that the registry has for its tool.\<close>

definition resolved :: "bot \<Rightarrow> session \<times> string \<times> json \<Rightarrow> bool" where
  "resolved b c = (tool_to_session b (fst (snd c)) = Some (fst c))"

text \<open>
  Every assistant entry of the transcript points into the store. It holds at the start
  of a turn and the loop keeps it.
\<close>

definition wf_turn :: "mturn \<Rightarrow> bool" where
  "wf_turn st = list_all (\<lambda>e. case e of AssistantEntry a \<Rightarrow> a < length (heap st) | _ \<Rightarrow> True) (messages st)"

text \<open>
  The registrations a configuration leads to, in the order the program makes them:
  server after server, and for each server its tools in the order it lists them.
\<close>

definition advertised :: "world \<Rightarrow> string \<times> json \<Rightarrow> (string \<times> session) list" where
  "advertised w sv =
     (case launch w (fst sv) (snd sv) of
        Inl m \<Rightarrow> []
      | Inr s \<Rightarrow> (case list_tools w s of Inl m \<Rightarrow> [] | Inr tools \<Rightarrow> map (\<lambda>t. (tool_name t, s)) tools))"

definition registrations :: "world \<Rightarrow> (string \<times> json) list \<Rightarrow> (string \<times> session) list" where
  "registrations w servers = concat (map (advertised w) servers)"

text \<open>A server whose launch and tool listing both succeed.\<close>

definition connects :: "world \<Rightarrow> string \<times> json \<Rightarrow> bool" where
  "connects w sv =
     (case launch w (fst sv) (snd sv) of
        Inl m \<Rightarrow> False
      | Inr s \<Rightarrow> (case list_tools w s of Inl m \<Rightarrow> False | Inr tools \<Rightarrow> True))"

section \<open>Invariants of a turn\<close>

text \<open>
  The first \<open>n\<close> tool invocations of a trace were all answered with a result.
\<close>

definition answered :: "(nat \<Rightarrow> string + call_result) \<Rightarrow> nat \<Rightarrow> bool" where
  "answered f n = (\<forall>k<n. \<exists>c. f k = Inr c)"

text \<open>
  How the invocations, the tool results in the transcript and the outcome of a turn
  belong together: either every invocation was answered, each has its tool result and
  the outcome is no tool error; or the last invocation raised, the outcome is that
  error, and the tool results are those of the invocations before it.
\<close>

definition settled :: "(nat \<Rightarrow> string + call_result) \<Rightarrow> nat \<Rightarrow> nat \<Rightarrow> error + 'a \<Rightarrow> bool" where
  "settled f ncalls nresults r =
     (answered f ncalls \<and> nresults = ncalls \<and> (\<forall>m. r \<noteq> Inl (ToolExecutionError m)) \<or>
      (\<exists>m n. r = Inl (ToolExecutionError m) \<and> ncalls = Suc n \<and> f n = Inl m \<and>
         answered f n \<and> nresults = n))"

definition good_s :: "world \<Rightarrow> session \<Rightarrow> sturn \<Rightarrow> bool" where
  "good_s w s st =
     (answered (answer_s w s (calls_s st)) (length (calls_s st)) \<and>
      length (tool_results_s (messages_s st)) = length (calls_s st))"

definition settled_s :: "world \<Rightarrow> session \<Rightarrow> error + 'a \<Rightarrow> sturn \<Rightarrow> bool" where
  "settled_s w s r st =
     settled (answer_s w s (calls_s st)) (length (calls_s st))
       (length (tool_results_s (messages_s st))) r"

definition good :: "world \<Rightarrow> mturn \<Rightarrow> bool" where
  "good w st =
     (answered (answer w (calls st)) (length (calls st)) \<and>
      length (tool_results (messages st)) = length (calls st))"

definition settled_m :: "world \<Rightarrow> error + 'a \<Rightarrow> mturn \<Rightarrow> bool" where
  "settled_m w r st =
     settled (answer w (calls st)) (length (calls st))
       (length (tool_results (messages st))) r"


section \<open>Example worlds\<close>

text \<open>
  A model that answers its \<open>k\<close>-th request with the \<open>k\<close>-th response of a script and
  with a closing text after that; a tool \<open>fail\<close> whose call raises, while every other
  tool echoes its call in the content of its result, the tool \<open>broken\<close> with the flag
  \<open>isError\<close> set; servers that cannot be launched when their configuration is \<open>bad\<close>;
  session \<open>1\<close> lists the tools \<open>search\<close> and \<open>fetch\<close>, every other session \<open>search\<close>
  alone.
\<close>

definition search_tool :: mcp_tool where
  "search_tool = \<lparr>tool_name = ''search'', tool_description = ''find'', inputSchema = ''{}''\<rparr>"

definition fetch_tool :: mcp_tool where
  "fetch_tool = \<lparr>tool_name = ''fetch'', tool_description = ''get'', inputSchema = ''{}''\<rparr>"

definition script_world :: "block list list \<Rightarrow> world" where
  "script_world script =
     \<lparr>complete = (\<lambda>k ms. if k < length script then Inr (script ! k) else Inr [TextBlock ''done'']),
      call_tool = (\<lambda>s k nm a. if nm = ''fail'' then Inl ''boom''
                     else Inr \<lparr>isError = (nm = ''broken''), content = nm @ a\<rparr>),
      launch = (\<lambda>n c. if c = ''bad'' then Inl ''no launch'' else Inr (length n)),
      list_tools = (\<lambda>s. Inr (if s = 1 then [search_tool, fetch_tool] else [search_tool]))\<rparr>"

definition example_bot :: bot where
  "example_bot = new_bot\<lparr>tool_to_session :=
     [''search'' \<mapsto> 2, ''fetch'' \<mapsto> 1, ''fail'' \<mapsto> 1, ''broken'' \<mapsto> 1]\<rparr>"

section \<open>Facts about the single-server client\<close>


lemma emit_s_simps [simp]:
  "messages_s (emit_s e st) = messages_s st"
  "calls_s (emit_s e st) = calls_s st"
  "requests_s (emit_s e st) = requests_s st"
  "out_s (emit_s e st) = out_s st @ [e]"
  by (simp_all add: emit_s_def)

lemma tool_results_s_append [simp]:
  "tool_results_s (xs @ ys) = tool_results_s xs @ tool_results_s ys"
  by (induction xs rule: tool_results_s.induct) simp_all

lemma get_claude_response_s_fields:
  assumes "get_claude_response_s w st = (r, st')"
  shows "messages_s st' = messages_s st" "calls_s st' = calls_s st"
    "requests_s st' = requests_s st @ [messages_s st]"
  using assms by (auto simp: get_claude_response_s_def Let_def split: sum.splits)

lemma process_blocks_s_requests:
  "requests_s (snd (process_blocks_s w s n cs st)) = requests_s st"
  by (induction w s n cs st rule: process_blocks_s.induct)
     (simp_all add: Let_def split: sum.splits)

lemma process_blocks_s_skip:
  "\<forall>x\<in>set pre. \<not> is_tool_use x \<Longrightarrow> n \<noteq> 1 \<Longrightarrow>
   process_blocks_s w s n (pre @ rest) st =
   process_blocks_s w s n rest (st\<lparr>out_s := out_s st @ map PrintResponse (map text_of (filter is_text pre))\<rparr>)"
proof (induction pre arbitrary: st)
  case Nil
  then show ?case by simp
next
  case (Cons c pre)
  then show ?case by (cases c) (simp_all add: emit_s_def)
qed

lemma process_blocks_s_calls:
  "length (calls_s (snd (process_blocks_s w s n cs st))) \<le> Suc (length (calls_s st))"
  by (induction w s n cs st rule: process_blocks_s.induct)
     (simp_all add: Let_def split: sum.splits)

lemma loop_body_s_requests:
  "loop_body_s w s it st = (r, st') \<Longrightarrow> requests_s st' = requests_s st @ [messages_s st]"
  unfolding loop_body_s_def process_content_blocks_def
  by (auto split: prod.splits sum.splits dest!: get_claude_response_s_fields(3)
      simp: process_blocks_s_requests[THEN trans] dest: arg_cong[where f="\<lambda>p. requests_s (snd p)"])

lemma loop_s_cases:
  assumes "process_query_loop_s w s it st = (r, st')"
  obtains (exit) "\<not> it \<le> max_iterations" "r = Inr it" "st' = st"
  | (raise) e where "it \<le> max_iterations" "loop_body_s w s it st = (Inl e, st')" "r = Inl e"
  | (break) "it \<le> max_iterations" "loop_body_s w s it st = (Inr False, st')" "r = Inr it"
  | (continue) st1 where "it \<le> max_iterations" "loop_body_s w s it st = (Inr True, st1)"
      "process_query_loop_s w s (it + 1) st1 = (r, st')"
  using assms
  by (subst (asm) process_query_loop_s.simps) (auto split: if_splits prod.splits sum.splits)

subsection \<open>The bound of the loop\<close>

lemma loop_s_requests:
  "process_query_loop_s w s it st = (r, st') \<Longrightarrow>
   length (requests_s st') \<le> length (requests_s st) + (Suc max_iterations - it)"
proof (induction w s it st arbitrary: r st' rule: process_query_loop_s.induct)
  case (1 w s it st)
  from "1.prems" show ?case
  proof (cases rule: loop_s_cases)
    case exit
    then show ?thesis by simp
  next
    case (raise e)
    then show ?thesis using loop_body_s_requests[OF raise(2)] by simp
  next
    case break
    then show ?thesis using loop_body_s_requests[OF break(2)] by simp
  next
    case (continue st1)
    have "length (requests_s st') \<le> length (requests_s st1) + (Suc max_iterations - (it + 1))"
      using "1.IH"[OF continue(1) continue(2)[symmetric] refl _ continue(3)] by simp
    then show ?thesis using loop_body_s_requests[OF continue(2)] continue(1) by simp
  qed
qed

lemma loop_s_exhausted:
  "process_query_loop_s w s it st = (Inr k, st') \<Longrightarrow> it \<le> Suc max_iterations \<Longrightarrow>
   max_iterations < k \<Longrightarrow>
   k = Suc max_iterations \<and> length (requests_s st') = length (requests_s st) + (Suc max_iterations - it)"
proof (induction w s it st arbitrary: st' rule: process_query_loop_s.induct)
  case (1 w s it st)
  from "1.prems"(1) show ?case
  proof (cases rule: loop_s_cases)
    case exit
    then show ?thesis using "1.prems" by simp
  next
    case (raise e)
    then show ?thesis by simp
  next
    case break
    then show ?thesis using "1.prems" by simp
  next
    case (continue st1)
    have "k = Suc max_iterations \<and> length (requests_s st') = length (requests_s st1) + (Suc max_iterations - (it + 1))"
      using "1.IH"[OF continue(1) continue(2)[symmetric] refl _ continue(3)] continue(1) "1.prems"(3) by simp
    then show ?thesis using loop_body_s_requests[OF continue(2)] continue(1) by simp
  qed
qed

subsection \<open>Tool failures\<close>

lemma settled_failed:
  assumes "settled f n nr r" "k < n" "f k = Inl m"
  shows "r = Inl (ToolExecutionError m) \<and> Suc k = n \<and> nr = k"
proof -
  from assms(2,3) have "\<not> answered f n" by (auto simp: answered_def)
  with assms(1) obtain m' n' where *: "r = Inl (ToolExecutionError m')" "n = Suc n'" "f n' = Inl m'"
    "answered f n'" "nr = n'" by (auto simp: settled_def)
  have "k = n'"
  proof (rule ccontr)
    assume "k \<noteq> n'"
    with assms(2) * have "k < n'" by simp
    with *(4) assms(3) show False by (auto simp: answered_def)
  qed
  with * assms(3) show ?thesis by simp
qed

lemma answer_s_append [simp]:
  "k < length cs \<Longrightarrow> answer_s w s (cs @ xs) k = answer_s w s cs k"
  "answer_s w s (cs @ [(nm, a)]) (length cs) = call_tool w s (length cs) nm a"
  by (simp_all add: answer_s_def nth_append)

lemma answered_append_s:
  "answered (answer_s w s cs) (length cs) \<Longrightarrow> answered (answer_s w s (cs @ xs)) (length cs)"
  by (simp add: answered_def)

lemma good_s_emit [simp]: "good_s w s (emit_s e st) = good_s w s st"
  by (simp add: good_s_def)

lemma good_s_out [simp]: "good_s w s (st\<lparr>out_s := x\<rparr>) = good_s w s st"
  by (simp add: good_s_def)

lemma good_s_settled: "good_s w s st \<Longrightarrow> (\<And>m. r \<noteq> Inl (ToolExecutionError m)) \<Longrightarrow> settled_s w s r st"
  by (simp add: good_s_def settled_s_def settled_def)

lemma settled_s_emit [simp]: "settled_s w s r (emit_s e st) = settled_s w s r st"
  by (simp add: settled_s_def)

lemma process_blocks_s_settled:
  "good_s w s st \<Longrightarrow> process_blocks_s w s n cs st = (r, st') \<Longrightarrow>
   settled_s w s r st' \<and> (\<forall>x. r = Inr x \<longrightarrow> good_s w s st')"
proof (induction w s n cs st arbitrary: r st' rule: process_blocks_s.induct)
  case (1 w s n st)
  then show ?case by (auto intro: good_s_settled)
next
  case (2 w s n t cs st)
  then show ?case by (auto simp: Let_def split: if_splits intro: good_s_settled)
next
  case (3 w s n i nm a cs st)
  show ?case
  proof (cases "call_tool w s (length (calls_s st)) nm a")
    case (Inl m)
    with 3 show ?thesis
      by (auto simp: Let_def settled_s_def settled_def good_s_def answered_append_s)
  next
    case (Inr c)
    with 3 have g: "good_s w s st'"
      by (auto simp: Let_def good_s_def answered_def less_Suc_eq)
    from 3 Inr have "r = Inr True" by (auto simp: Let_def)
    with g show ?thesis by (auto intro: good_s_settled)
  qed
next
  case (4 w s n ty cs st)
  then show ?case by simp
qed

lemma get_claude_response_s_good:
  "get_claude_response_s w st = (r, st') \<Longrightarrow> good_s w s st' = good_s w s st"
  by (auto simp: get_claude_response_s_def Let_def good_s_def split: sum.splits)

lemma get_claude_response_s_error:
  "get_claude_response_s w st = (Inl e, st') \<Longrightarrow> \<exists>m. e = ModelAPIError m"
  by (auto simp: get_claude_response_s_def Let_def split: sum.splits)

lemma loop_body_s_settled:
  assumes "good_s w s st" "loop_body_s w s it st = (r, st')"
  shows "settled_s w s r st' \<and> (\<forall>x. r = Inr x \<longrightarrow> good_s w s st')"
proof (cases "get_claude_response_s w (emit_s (PrintIteration it) st)")
  case (Pair r1 st1)
  have g1: "good_s w s st1" using get_claude_response_s_good[OF Pair] assms(1) by simp
  show ?thesis
  proof (cases r1)
    case (Inl e)
    with Pair assms(2) have "r = Inl e" "st' = st1" by (simp_all add: loop_body_s_def)
    moreover obtain m where "e = ModelAPIError m"
      using get_claude_response_s_error Pair Inl by blast
    ultimately show ?thesis using g1 by (auto intro: good_s_settled)
  next
    case (Inr response)
    with Pair assms(2) have "process_blocks_s w s (length response) response st1 = (r, st')"
      by (simp add: loop_body_s_def process_content_blocks_def)
    from process_blocks_s_settled[OF g1 this] show ?thesis .
  qed
qed

lemma loop_s_settled:
  "good_s w s st \<Longrightarrow> process_query_loop_s w s it st = (r, st') \<Longrightarrow> settled_s w s r st'"
proof (induction w s it st arbitrary: r st' rule: process_query_loop_s.induct)
  case (1 w s it st)
  from "1.prems"(2) show ?case
  proof (cases rule: loop_s_cases)
    case exit
    then show ?thesis using "1.prems"(1) by (auto intro: good_s_settled)
  next
    case (raise e)
    then show ?thesis using loop_body_s_settled[OF "1.prems"(1) raise(2)] by (simp add: settled_s_def settled_def)
  next
    case break
    then show ?thesis using loop_body_s_settled[OF "1.prems"(1) break(2)] by (auto intro: good_s_settled)
  next
    case (continue st1)
    have "good_s w s st1" using loop_body_s_settled[OF "1.prems"(1) continue(2)] by blast
    from "1.IH"[OF continue(1) continue(2)[symmetric] refl _ this continue(3)] show ?thesis by simp
  qed
qed

lemma process_query_s_settled:
  assumes "process_query_s w s q = (r, st)"
  shows "settled_s w s r st"
proof (cases "process_query_loop_s w s 1 (init_s q)")
  case (Pair r1 st1)
  have "good_s w s (init_s q)" by (simp add: good_s_def init_s_def answered_def)
  from loop_s_settled[OF this Pair] have s1: "settled_s w s r1 st1" .
  show ?thesis
  proof (cases r1)
    case (Inl e)
    with Pair assms have "r = Inl e" "st = emit_s (PrintQueryError e) st1"
      by (simp_all add: process_query_s_def)
    with s1 Inl show ?thesis by (simp add: settled_s_def settled_def)
  next
    case (Inr k)
    with Pair assms have "r = Inr ()" "settled_s w s r1 st = settled_s w s r1 st1"
      by (auto simp add: process_query_s_def split: if_splits)
    with s1 Inr show ?thesis by (simp add: settled_s_def settled_def)
  qed
qed


section \<open>Facts about the multi-server client\<close>


lemma emit_simps [simp]:
  "messages (emit e st) = messages st"
  "heap (emit e st) = heap st"
  "calls (emit e st) = calls st"
  "requests (emit e st) = requests st"
  "out (emit e st) = out st @ [e]"
  by (simp_all add: emit_def)

lemma append_content_simps [simp]:
  "messages (append_content a c st) = messages st"
  "calls (append_content a c st) = calls st"
  "requests (append_content a c st) = requests st"
  "out (append_content a c st) = out st"
  "length (heap (append_content a c st)) = length (heap st)"
  by (simp_all add: append_content_def)

lemma deref_append_content:
  "a < length (heap st) \<Longrightarrow> deref (heap (append_content a c st)) a = deref (heap st) a @ [c]"
  "a' \<noteq> a \<Longrightarrow> deref (heap (append_content a c st)) a' = deref (heap st) a'"
  by (simp_all add: append_content_def deref_def)

lemma tool_results_append [simp]:
  "tool_results (xs @ ys) = tool_results xs @ tool_results ys"
  by (induction xs rule: tool_results.induct) simp_all

lemma tool_uses_append [simp]:
  "tool_uses (xs @ ys) = tool_uses xs @ tool_uses ys"
  by (induction xs rule: tool_uses.induct) simp_all

lemma get_claude_response_fields:
  assumes "get_claude_response w st = (r, st')"
  shows "st' = st\<lparr>requests := requests st @ [transcript st]\<rparr>"
  using assms by (auto simp: get_claude_response_def Let_def split: sum.splits)

lemma get_claude_response_Inr:
  "complete w (length (requests st)) (transcript st) = Inr response \<Longrightarrow>
   get_claude_response w st = (Inr response, st\<lparr>requests := requests st @ [transcript st]\<rparr>)"
  by (simp add: get_claude_response_def Let_def)

lemma handle_tool_call_unknown:
  "tool_to_session b nm = None \<Longrightarrow> handle_tool_call w b i nm a st = (Inl (KeyError nm), st)"
  by (simp add: handle_tool_call_def)

text \<open>The loop over the blocks composes.\<close>

lemma process_blocks_append:
  "process_blocks w b response ac (xs @ ys) pq st =
   (case process_blocks w b response ac xs pq st of
      (Inl e, st1) \<Rightarrow> (Inl e, st1)
    | (Inr pq1, st1) \<Rightarrow> process_blocks w b response ac ys pq1 st1)"
proof (induction xs arbitrary: pq st)
  case Nil
  then show ?case by simp
next
  case (Cons c xs)
  show ?case
  proof (cases c)
    case (TextBlock t)
    then show ?thesis using Cons.IH by (simp add: Let_def)
  next
    case (ToolUseBlock i nm a)
    then show ?thesis using Cons.IH
      by (simp add: Let_def split: prod.splits sum.splits)
  next
    case (OtherBlock ty)
    then show ?thesis using Cons.IH by simp
  qed
qed

text \<open>Blocks that are not tool uses only print and extend the content list.\<close>

lemma process_blocks_no_tool_use:
  assumes "\<forall>x\<in>set cs. \<not> is_tool_use x" "ac < length (heap st)"
  shows "process_blocks w b response ac cs pq st =
     (Inr (if length response = 1 \<and> (\<exists>x\<in>set cs. is_text x) then False else pq),
      st\<lparr>heap := (heap st)[ac := deref (heap st) ac @ filter is_text cs],
         out := out st @ map (\<lambda>x. PrintAssistant (text_of x)) (filter is_text cs)\<rparr>)"
  using assms
proof (induction cs arbitrary: pq st)
  case Nil
  then show ?case by (simp add: deref_def)
next
  case (Cons c cs)
  show ?case
  proof (cases c)
    case (TextBlock t)
    let ?st1 = "append_content ac (TextBlock t) (emit (PrintAssistant t) st)"
    have "ac < length (heap ?st1)" using Cons.prems by simp
    with Cons.IH[of ?st1] Cons.prems TextBlock show ?thesis
      by (simp add: Let_def append_content_def emit_def deref_def)
  next
    case (ToolUseBlock i nm a)
    with Cons.prems show ?thesis by simp
  next
    case (OtherBlock ty)
    with Cons.IH[of st pq] Cons.prems show ?thesis by simp
  qed
qed


lemma deref_append [simp]: "a < length h \<Longrightarrow> deref (h @ xs) a = deref h a"
  by (simp add: deref_def nth_append)



lemma loop_body_texts:
  assumes c: "complete w (length (requests st)) (transcript st) = Inr response"
    and t: "\<forall>x\<in>set response. is_text x"
  shows "loop_body w b st =
     (Inr (length response \<noteq> 1),
      st\<lparr>requests := requests st @ [transcript st], heap := heap st @ [response],
         out := out st @ map (\<lambda>x. PrintAssistant (text_of x)) response\<rparr>)"
proof -
  let ?st2 = "st\<lparr>requests := requests st @ [transcript st], heap := heap st @ [[]]\<rparr>"
  have nt: "\<forall>x\<in>set response. \<not> is_tool_use x"
  proof
    fix x assume "x \<in> set response"
    with t have "is_text x" by simp
    then show "\<not> is_tool_use x" by (cases x) simp_all
  qed
  have f: "filter is_text response = response" using t by simp
  have ac: "length (heap st) < length (heap ?st2)" by simp
  have e: "(\<exists>x\<in>set response. is_text x) \<or> length response \<noteq> 1"
    using t by (cases response) auto
  have "loop_body w b st = process_blocks w b response (length (heap st)) response True ?st2"
    by (simp add: loop_body_def get_claude_response_Inr[OF c])
  also have "\<dots> = (Inr (if length response = 1 \<and> (\<exists>x\<in>set response. is_text x) then False else True),
      ?st2\<lparr>heap := (heap ?st2)[length (heap st) := deref (heap ?st2) (length (heap st)) @ filter is_text response],
         out := out ?st2 @ map (\<lambda>x. PrintAssistant (text_of x)) (filter is_text response)\<rparr>)"
    by (rule process_blocks_no_tool_use[OF nt ac])
  finally show ?thesis using e by (auto simp add: f deref_def)
qed

lemma loop_single_text:
  assumes "complete w (length (requests st)) (transcript st) = Inr [TextBlock t]"
  shows "process_query_loop (Suc fuel) w b True st =
     Some (Inr (), st\<lparr>requests := requests st @ [transcript st], heap := heap st @ [[TextBlock t]],
         out := out st @ [PrintAssistant t]\<rparr>)"
  using loop_body_texts[OF assms, of b] by (cases fuel) simp_all

lemma loop_s_single_text:
  assumes "it \<le> max_iterations" "complete w (length (requests_s st)) (messages_s st) = Inr [TextBlock t]"
  shows "process_query_loop_s w s it st =
     (Inr it, st\<lparr>requests_s := requests_s st @ [messages_s st],
        out_s := out_s st @ [PrintIteration it, PrintSending, PrintReceived 1, PrintResponse t, PrintComplete]\<rparr>)"
  using assms
  by (subst process_query_loop_s.simps)
     (simp add: loop_body_s_def get_claude_response_s_def process_content_blocks_def emit_s_def Let_def)

section \<open>Facts about the connections\<close>

lemma register_tools_fields:
  "tool_to_session (register_tools s tools b) =
     tool_to_session b ++ map_of (rev (map (\<lambda>t. (tool_name t, s)) tools))"
  "map td_name (available_tools (register_tools s tools b)) =
     map td_name (available_tools b) @ map tool_name tools"
  "sessions (register_tools s tools b) = sessions b"
  "launched (register_tools s tools b) = launched b"
proof (induction tools arbitrary: b)
  case Nil
  { case 1 show ?case by simp }
  { case 2 show ?case by simp }
  { case 3 show ?case by simp }
  { case 4 show ?case by simp }
next
  case (Cons t ts)
  { case 1 show ?case by (auto simp: Cons.IH(1) map_add_def fun_eq_iff split: option.splits) }
  { case 2 show ?case by (simp add: Cons.IH(2)) }
  { case 3 show ?case by (simp add: Cons.IH(3)) }
  { case 4 show ?case by (simp add: Cons.IH(4)) }
qed

lemma connect_to_server_ok:
  assumes "connects w sv"
  shows "\<exists>b1. connect_to_server w (fst sv) (snd sv) b = (Inr (), b1) \<and>
     launched b1 = launched b @ [fst sv] \<and>
     tool_to_session b1 = tool_to_session b ++ map_of (rev (advertised w sv)) \<and>
     map td_name (available_tools b1) = map td_name (available_tools b) @ map fst (advertised w sv)"
  using assms
  by (auto simp: connects_def advertised_def connect_to_server_def Let_def register_tools_fields
      comp_def split: sum.splits)

lemma connect_to_server_fails:
  assumes "\<not> connects w sv"
  shows "\<exists>m b1. connect_to_server w (fst sv) (snd sv) b = (Inl (ConnectionError m), b1) \<and>
     launched b1 = launched b @ [fst sv] \<and>
     tool_to_session b1 = tool_to_session b \<and> available_tools b1 = available_tools b"
  using assms
  by (auto simp: connects_def connect_to_server_def Let_def split: sum.splits)

lemma advertised_fails: "\<not> connects w sv \<Longrightarrow> advertised w sv = []"
  by (auto simp: connects_def advertised_def split: sum.splits)

lemma connect_loop_all:
  "\<forall>x\<in>set servers. connects w x \<Longrightarrow>
   \<exists>b1. connect_loop w servers b = (Inr (), b1) \<and>
     launched b1 = launched b @ map fst servers \<and>
     tool_to_session b1 = tool_to_session b ++ map_of (rev (registrations w servers)) \<and>
     map td_name (available_tools b1) =
       map td_name (available_tools b) @ map fst (registrations w servers)"
proof (induction servers arbitrary: b)
  case Nil
  then show ?case by (simp add: registrations_def)
next
  case (Cons sv servers)
  from Cons.prems have c: "connects w sv" by simp
  from connect_to_server_ok[OF c, of b] obtain b1 where
    b1: "connect_to_server w (fst sv) (snd sv) b = (Inr (), b1)"
      "launched b1 = launched b @ [fst sv]"
      "tool_to_session b1 = tool_to_session b ++ map_of (rev (advertised w sv))"
      "map td_name (available_tools b1) = map td_name (available_tools b) @ map fst (advertised w sv)"
    by blast
  from Cons.prems have "\<forall>x\<in>set servers. connects w x" by simp
  from Cons.IH[OF this, of b1] obtain b2 where
    b2: "connect_loop w servers b1 = (Inr (), b2)"
      "launched b2 = launched b1 @ map fst servers"
      "tool_to_session b2 = tool_to_session b1 ++ map_of (rev (registrations w servers))"
      "map td_name (available_tools b2) =
         map td_name (available_tools b1) @ map fst (registrations w servers)"
    by blast
  have "connect_loop w (sv # servers) b = (Inr (), b2)"
    using b1(1) b2(1) by (cases sv) simp
  then show ?case using b1(2-) b2(2-) by (simp add: registrations_def)
qed

lemma connect_loop_append:
  "connect_loop w (xs @ ys) b =
     (case connect_loop w xs b of
        (Inl e, b1) \<Rightarrow> (Inl e, b1)
      | (Inr u, b1) \<Rightarrow> connect_loop w ys b1)"
  by (induction w xs b rule: connect_loop.induct) (simp_all split: prod.splits sum.splits)

lemma connect_loop_fail_fast:
  assumes "\<forall>x\<in>set pre. connects w x" "\<not> connects w sv"
  shows "\<exists>m b1. connect_loop w (pre @ sv # post) b = (Inl (ConnectionError m), b1) \<and>
     launched b1 = launched b @ map fst pre @ [fst sv] \<and>
     tool_to_session b1 = tool_to_session b ++ map_of (rev (registrations w pre)) \<and>
     map td_name (available_tools b1) =
       map td_name (available_tools b) @ map fst (registrations w pre)"
proof -
  from connect_loop_all[OF assms(1), of b] obtain b1 where
    b1: "connect_loop w pre b = (Inr (), b1)"
      "launched b1 = launched b @ map fst pre"
      "tool_to_session b1 = tool_to_session b ++ map_of (rev (registrations w pre))"
      "map td_name (available_tools b1) =
         map td_name (available_tools b) @ map fst (registrations w pre)"
    by blast
  from connect_to_server_fails[OF assms(2), of b1] obtain m b2 where
    b2: "connect_to_server w (fst sv) (snd sv) b1 = (Inl (ConnectionError m), b2)"
      "launched b2 = launched b1 @ [fst sv]"
      "tool_to_session b2 = tool_to_session b1" "available_tools b2 = available_tools b1"
    by blast
  have "connect_loop w (pre @ sv # post) b = (Inl (ConnectionError m), b2)"
    using b1(1) b2(1) by (cases sv) (simp add: connect_loop_append)
  then show ?thesis using b1(2-) b2(2-) by simp
qed

lemma map_of_rev_last:
  "nm \<notin> fst ` set ys \<Longrightarrow> map_of (rev (xs @ (nm, s) # ys)) nm = Some s"
  by (simp add: map_of_append map_add_def map_of_eq_None_iff[THEN iffD2] split: option.splits)

lemma connect_loop_cut:
  assumes "\<not> connects w sv"
  shows "connect_loop w (pre @ sv # post) b = connect_loop w (pre @ [sv]) b"
proof (cases "connect_loop w pre b")
  case (Pair r b1)
  from connect_to_server_fails[OF assms, of b1] obtain m b2 where
    "connect_to_server w (fst sv) (snd sv) b1 = (Inl (ConnectionError m), b2)" by blast
  then show ?thesis using Pair by (cases sv; cases r) (simp_all add: connect_loop_append)
qed

lemma connect_loop_registry:
  "tool_to_session (snd (connect_loop w servers b)) =
     tool_to_session b ++ map_of (rev (registrations w (takeWhile (connects w) servers))) \<and>
   map td_name (available_tools (snd (connect_loop w servers b))) =
     map td_name (available_tools b) @ map fst (registrations w (takeWhile (connects w) servers))"
proof (cases "dropWhile (connects w) servers")
  case Nil
  then have a: "\<forall>x\<in>set servers. connects w x" by (simp add: dropWhile_eq_Nil_conv)
  then have tw: "takeWhile (connects w) servers = servers" by (simp add: takeWhile_eq_all_conv)
  from connect_loop_all[OF a, of b] show ?thesis unfolding tw by auto
next
  case (Cons sv post)
  let ?pre = "takeWhile (connects w) servers"
  have s: "servers = ?pre @ sv # post" using Cons takeWhile_dropWhile_id[of "connects w" servers] by simp
  have p: "\<forall>x\<in>set ?pre. connects w x" using set_takeWhileD by fastforce
  have n: "\<not> connects w sv" using Cons hd_dropWhile[of "connects w" servers] by auto
  from connect_loop_fail_fast[OF p n, of post b] s show ?thesis by auto
qed

section \<open>Tool failures in the multi-server client\<close>

lemma answer_append [simp]:
  "k < length cs \<Longrightarrow> answer w (cs @ xs) k = answer w cs k"
  "answer w (cs @ [(s, nm, a)]) (length cs) = call_tool w s (length cs) nm a"
  by (simp_all add: answer_def nth_append)

lemma answered_append:
  "answered (answer w cs) (length cs) \<Longrightarrow> answered (answer w (cs @ xs)) (length cs)"
  by (simp add: answered_def)

lemma good_settled: "good w st \<Longrightarrow> (\<And>m. r \<noteq> Inl (ToolExecutionError m)) \<Longrightarrow> settled_m w r st"
  by (simp add: good_def settled_m_def settled_def)

lemma handle_tool_call_settled:
  assumes "good w st" "handle_tool_call w b i nm a st = (r, st')"
  shows "settled_m w r st' \<and> (\<forall>x. r = Inr x \<longrightarrow> good w st')"
proof (cases "tool_to_session b nm")
  case None
  with assms show ?thesis by (auto simp: handle_tool_call_def intro: good_settled)
next
  case (Some s)
  show ?thesis
  proof (cases "call_tool w s (length (calls st)) nm a")
    case (Inl m)
    with Some assms show ?thesis
      by (auto simp: handle_tool_call_def Let_def settled_m_def settled_def good_def answered_append)
  next
    case (Inr c)
    with Some assms have g: "good w st'"
      by (auto simp: handle_tool_call_def Let_def good_def answered_def less_Suc_eq)
    from Some Inr assms(2) have "r = Inr ()" by (auto simp: handle_tool_call_def Let_def)
    with g show ?thesis by (auto intro: good_settled)
  qed
qed

lemma process_blocks_settled:
  "good w st \<Longrightarrow> process_blocks w b response ac cs pq st = (r, st') \<Longrightarrow>
   settled_m w r st' \<and> (\<forall>x. r = Inr x \<longrightarrow> good w st')"
proof (induction cs arbitrary: pq st)
  case Nil
  then show ?case by (auto intro: good_settled)
next
  case (Cons c cs)
  show ?case
  proof (cases c)
    case (TextBlock t)
    let ?st1 = "append_content ac (TextBlock t) (emit (PrintAssistant t) st)"
    let ?pq1 = "if length response = 1 then False else pq"
    have 1: "good w ?st1" using Cons.prems(1) by (simp add: good_def)
    have 2: "process_blocks w b response ac cs ?pq1 ?st1 = (r, st')"
      using Cons.prems(2) TextBlock by (simp add: Let_def)
    from Cons.IH[OF 1 2] show ?thesis .
  next
    case (ToolUseBlock i nm a)
    let ?st2 = "(append_content ac (ToolUseBlock i nm a) st)\<lparr>messages := messages st @ [AssistantEntry ac]\<rparr>"
    have g2: "good w ?st2" using Cons.prems(1) by (simp add: good_def)
    show ?thesis
    proof (cases "handle_tool_call w b i nm a ?st2")
      case (Pair r3 st3)
      note h = handle_tool_call_settled[OF g2 Pair]
      show ?thesis
      proof (cases r3)
        case (Inl e)
        with Cons.prems(2) ToolUseBlock Pair have "st' = st3" "r = Inl e" by (simp_all add: Let_def)
        with h Inl show ?thesis by (simp add: settled_m_def settled_def)
      next
        case (Inr u)
        let ?pq1 = "if length response = 1 \<and> is_text (response ! 0) then False else pq"
        let ?st4 = "if length response = 1 \<and> is_text (response ! 0)
                  then emit (PrintAssistant (text_of (response ! 0))) st3 else st3"
        have 1: "good w ?st4" using h Inr by (simp add: good_def)
        have 2: "process_blocks w b response ac cs ?pq1 ?st4 = (r, st')"
          using Cons.prems(2) ToolUseBlock Pair Inr by (auto simp add: Let_def split: if_splits)
        from Cons.IH[OF 1 2] show ?thesis .
      qed
    qed
  next
    case (OtherBlock ty)
    with Cons.prems(2) have "process_blocks w b response ac cs pq st = (r, st')" by simp
    from Cons.IH[OF Cons.prems(1) this] show ?thesis .
  qed
qed

lemma loop_body_settled:
  assumes "good w st" "loop_body w b st = (r, st')"
  shows "settled_m w r st' \<and> (\<forall>x. r = Inr x \<longrightarrow> good w st')"
proof (cases "get_claude_response w st")
  case (Pair r1 st1)
  note f = get_claude_response_fields[OF Pair]
  have g1: "good w st1" using assms(1) f by (simp add: good_def)
  show ?thesis
  proof (cases r1)
    case (Inl e)
    with Pair assms(2) have r: "r = Inl e" "st' = st1" by (simp_all add: loop_body_def)
    from Pair Inl obtain m where "e = ModelAPIError m"
      by (auto simp: get_claude_response_def Let_def split: sum.splits)
    with r g1 show ?thesis by (auto intro: good_settled)
  next
    case (Inr response)
    let ?st2 = "st1\<lparr>heap := heap st1 @ [[]]\<rparr>"
    have g2: "good w ?st2" using g1 by (simp add: good_def)
    have "process_blocks w b response (length (heap st1)) response True ?st2 = (r, st')"
      using assms(2) Pair Inr by (simp add: loop_body_def)
    from process_blocks_settled[OF g2 this] show ?thesis .
  qed
qed

lemma process_query_loop_settled:
  "good w st \<Longrightarrow> process_query_loop fuel w b pq st = Some (r, st') \<Longrightarrow> settled_m w r st'"
proof (induction fuel arbitrary: pq st)
  case 0
  then show ?case by (auto split: if_splits intro: good_settled)
next
  case (Suc fuel)
  show ?case
  proof (cases pq)
    case False
    with Suc.prems show ?thesis by (auto intro: good_settled)
  next
    case True
    show ?thesis
    proof (cases "loop_body w b st")
      case (Pair r1 st1)
      note h = loop_body_settled[OF Suc.prems(1) Pair]
      show ?thesis
      proof (cases r1)
        case (Inl e)
        with True Pair Suc.prems(2) have "r = Inl e" "st' = st1" by simp_all
        with h Inl show ?thesis by (simp add: settled_m_def settled_def)
      next
        case (Inr pq1)
        with True Pair Suc.prems(2) have 2: "process_query_loop fuel w b pq1 st1 = Some (r, st')" by simp
        from h Inr have "good w st1" by simp
        from Suc.IH[OF this 2] show ?thesis .
      qed
    qed
  qed
qed

lemma good_init: "good w (init q)"
  by (simp add: good_def init_def answered_def)

lemma process_query_settled:
  "process_query fuel w b q = Some (r, st) \<Longrightarrow> settled_m w r st"
  using process_query_loop_settled[OF good_init] unfolding process_query_def by blast

lemma process_query_loop_raise:
  "loop_body w b st = (Inl e, st') \<Longrightarrow> process_query_loop (Suc fuel) w b True st = Some (Inl e, st')"
  by simp

section \<open>The rounds of a turn of the single-server client\<close>

lemma process_query_s_requests:
  "process_query_loop_s w s 1 (init_s q) = (r, st) \<Longrightarrow>
   requests_s (snd (process_query_s w s q)) = requests_s st"
  by (cases r) (simp_all add: process_query_s_def)

section \<open>The dispatch of the tool-use blocks\<close>

lemma resolved_triple: "resolved b (s, nm, a) = (tool_to_session b nm = Some s)"
  by (simp add: resolved_def)

lemma handle_tool_call_Inr:
  assumes "handle_tool_call w b i nm a st = (Inr u, st')"
  shows "\<exists>s c. tool_to_session b nm = Some s \<and> call_tool w s (length (calls st)) nm a = Inr c \<and>
     st' = st\<lparr>calls := calls st @ [(s, nm, a)],
              messages := messages st @ [ToolResultEntry i (content c)]\<rparr>"
  using assms by (auto simp: handle_tool_call_def Let_def split: option.splits sum.splits)

lemma process_blocks_dispatch:
  "process_blocks w b response ac cs pq st = (Inr pq', st') \<Longrightarrow>
   \<exists>cl rs. calls st' = calls st @ cl \<and> map snd cl = map snd (tool_uses cs) \<and>
     list_all (resolved b) cl \<and>
     tool_results (messages st') = tool_results (messages st) @ rs \<and>
     map fst rs = map fst (tool_uses cs)"
proof (induction cs arbitrary: pq st)
  case Nil
  then show ?case by simp
next
  case (Cons c cs)
  show ?case
  proof (cases c)
    case (TextBlock t)
    let ?st1 = "append_content ac (TextBlock t) (emit (PrintAssistant t) st)"
    let ?pq1 = "if length response = 1 then False else pq"
    have "process_blocks w b response ac cs ?pq1 ?st1 = (Inr pq', st')"
      using Cons.prems TextBlock by (simp add: Let_def)
    from Cons.IH[OF this] show ?thesis using TextBlock by simp
  next
    case (ToolUseBlock i nm a)
    let ?st2 = "(append_content ac (ToolUseBlock i nm a) st)\<lparr>messages := messages st @ [AssistantEntry ac]\<rparr>"
    show ?thesis
    proof (cases "handle_tool_call w b i nm a ?st2")
      case (Pair r3 st3)
      show ?thesis
      proof (cases r3)
        case (Inl e)
        with Cons.prems ToolUseBlock Pair show ?thesis by (simp add: Let_def)
      next
        case (Inr u)
        from handle_tool_call_Inr[OF Pair[unfolded Inr]] obtain s and c' :: call_result where
          s: "tool_to_session b nm = Some s"
          and st3: "st3 = ?st2\<lparr>calls := calls ?st2 @ [(s, nm, a)],
                messages := messages ?st2 @ [ToolResultEntry i (content c')]\<rparr>"
          by blast
        let ?pq1 = "if length response = 1 \<and> is_text (response ! 0) then False else pq"
        let ?st4 = "if length response = 1 \<and> is_text (response ! 0)
                  then emit (PrintAssistant (text_of (response ! 0))) st3 else st3"
        have "process_blocks w b response ac cs ?pq1 ?st4 = (Inr pq', st')"
          using Cons.prems ToolUseBlock Pair Inr by (auto simp add: Let_def split: if_splits)
        from Cons.IH[OF this] obtain cl rs where
          i: "calls st' = calls ?st4 @ cl" "map snd cl = map snd (tool_uses cs)"
            "list_all (resolved b) cl"
            "tool_results (messages st') = tool_results (messages ?st4) @ rs"
            "map fst rs = map fst (tool_uses cs)"
          by blast
        have 4: "calls ?st4 = calls st @ [(s, nm, a)]"
          "tool_results (messages ?st4) = tool_results (messages st) @ [(i, content c')]"
          by (simp_all add: st3)
        show ?thesis
          using i s ToolUseBlock unfolding 4
          by (intro exI[of _ "(s, nm, a) # cl"] exI[of _ "(i, content c') # rs"]) (simp add: resolved_triple)
      qed
    qed
  next
    case (OtherBlock ty)
    with Cons.prems have "process_blocks w b response ac cs pq st = (Inr pq', st')" by simp
    from Cons.IH[OF this] show ?thesis using OtherBlock by simp
  qed
qed

section \<open>The store of the content lists\<close>

text \<open>
  The assistant entries of the transcript always point into the store: it holds when a
  turn starts, and every pass of the loop keeps it.
\<close>

lemma wf_turn_iff:
  "wf_turn st = (\<forall>a. AssistantEntry a \<in> set (messages st) \<longrightarrow> a < length (heap st))"
proof
  assume "wf_turn st"
  then have h: "\<forall>e\<in>set (messages st). case e of AssistantEntry a \<Rightarrow> a < length (heap st) | _ \<Rightarrow> True"
    by (simp add: wf_turn_def list_all_iff)
  show "\<forall>a. AssistantEntry a \<in> set (messages st) \<longrightarrow> a < length (heap st)"
  proof (intro allI impI)
    fix a assume "AssistantEntry a \<in> set (messages st)"
    with h have "case AssistantEntry a of AssistantEntry a \<Rightarrow> a < length (heap st) | _ \<Rightarrow> True"
      by (rule bspec)
    then show "a < length (heap st)" by simp
  qed
next
  assume h: "\<forall>a. AssistantEntry a \<in> set (messages st) \<longrightarrow> a < length (heap st)"
  have "case e of AssistantEntry a \<Rightarrow> a < length (heap st) | _ \<Rightarrow> True"
    if m: "e \<in> set (messages st)" for e
  proof (cases e)
    case (AssistantEntry a)
    with m h show ?thesis by simp
  qed simp_all
  then show "wf_turn st" by (simp add: wf_turn_def list_all_iff)
qed

lemma wf_turn_init: "wf_turn (init q)"
  by (simp add: wf_turn_iff init_def)

lemma wf_turn_grow:
  assumes "wf_turn st" "messages st' = messages st @ es" "length (heap st) \<le> length (heap st')"
    "\<forall>a. AssistantEntry a \<in> set es \<longrightarrow> a < length (heap st')"
  shows "wf_turn st'"
  unfolding wf_turn_iff
proof (intro allI impI)
  fix a assume "AssistantEntry a \<in> set (messages st')"
  then consider "AssistantEntry a \<in> set (messages st)" | "AssistantEntry a \<in> set es"
    using assms(2) by auto
  then show "a < length (heap st')"
  proof cases
    case 1
    then have "a < length (heap st)" using assms(1) by (simp add: wf_turn_iff)
    then show ?thesis using assms(3) by simp
  next
    case 2
    then show ?thesis using assms(4) by simp
  qed
qed

lemma handle_tool_call_wf_turn:
  assumes "handle_tool_call w b i nm a st = (r, st')" "wf_turn st"
  shows "wf_turn st' \<and> length (heap st') = length (heap st)"
proof (cases "tool_to_session b nm")
  case None
  with assms show ?thesis by (simp add: handle_tool_call_def)
next
  case (Some s)
  show ?thesis
  proof (cases "call_tool w s (length (calls st)) nm a")
    case (Inl m)
    with Some assms(1) have "st' = st\<lparr>calls := calls st @ [(s, nm, a)]\<rparr>"
      by (simp add: handle_tool_call_def Let_def)
    then show ?thesis using wf_turn_grow[OF assms(2), of st' "[]"] by simp
  next
    case (Inr c)
    with Some assms(1) have "st' = st\<lparr>calls := calls st @ [(s, nm, a)],
        messages := messages st @ [ToolResultEntry i (content c)]\<rparr>"
      by (simp add: handle_tool_call_def Let_def)
    then show ?thesis
      using wf_turn_grow[OF assms(2), of st' "[ToolResultEntry i (content c)]"] by simp
  qed
qed

lemma process_blocks_wf_turn:
  "process_blocks w b response ac cs pq st = (r, st') \<Longrightarrow> wf_turn st \<Longrightarrow> ac < length (heap st) \<Longrightarrow>
   wf_turn st'"
proof (induction cs arbitrary: pq st)
  case Nil
  then show ?case by simp
next
  case (Cons c cs)
  show ?case
  proof (cases c)
    case (TextBlock t)
    let ?st1 = "append_content ac (TextBlock t) (emit (PrintAssistant t) st)"
    let ?pq1 = "if length response = 1 then False else pq"
    have 1: "wf_turn ?st1" using wf_turn_grow[OF Cons.prems(2), of ?st1 "[]"] by simp
    have 2: "ac < length (heap ?st1)" using Cons.prems(3) by simp
    have 3: "process_blocks w b response ac cs ?pq1 ?st1 = (r, st')"
      using Cons.prems(1) TextBlock by (simp add: Let_def)
    from Cons.IH[OF 3 1 2] show ?thesis .
  next
    case (ToolUseBlock i nm a)
    let ?st2 = "(append_content ac (ToolUseBlock i nm a) st)\<lparr>messages := messages st @ [AssistantEntry ac]\<rparr>"
    have w2: "wf_turn ?st2"
      using Cons.prems(3) wf_turn_grow[OF Cons.prems(2), of ?st2 "[AssistantEntry ac]"] by simp
    show ?thesis
    proof (cases "handle_tool_call w b i nm a ?st2")
      case (Pair r3 st3)
      from handle_tool_call_wf_turn[OF Pair w2]
      have w3: "wf_turn st3" "length (heap st3) = length (heap st)" by simp_all
      show ?thesis
      proof (cases r3)
        case (Inl e)
        with Cons.prems(1) ToolUseBlock Pair have "st' = st3" by (simp add: Let_def)
        with w3 show ?thesis by simp
      next
        case (Inr u)
        let ?pq1 = "if length response = 1 \<and> is_text (response ! 0) then False else pq"
        let ?st4 = "if length response = 1 \<and> is_text (response ! 0)
                  then emit (PrintAssistant (text_of (response ! 0))) st3 else st3"
        have 1: "wf_turn ?st4"
          using wf_turn_grow[OF w3(1), of "emit (PrintAssistant (text_of (response ! 0))) st3" "[]"] w3(1)
          by simp
        have 2: "ac < length (heap ?st4)" using w3(2) Cons.prems(3) by simp
        have 3: "process_blocks w b response ac cs ?pq1 ?st4 = (r, st')"
          using Cons.prems(1) ToolUseBlock Pair Inr by (auto simp add: Let_def split: if_splits)
        from Cons.IH[OF 3 1 2] show ?thesis .
      qed
    qed
  next
    case (OtherBlock ty)
    with Cons.prems(1) have "process_blocks w b response ac cs pq st = (r, st')" by simp
    from Cons.IH[OF this Cons.prems(2,3)] show ?thesis .
  qed
qed

lemma loop_body_wf_turn:
  assumes "loop_body w b st = (r, st')" "wf_turn st"
  shows "wf_turn st'"
proof (cases "get_claude_response w st")
  case (Pair r1 st1)
  note f = get_claude_response_fields[OF Pair]
  show ?thesis
  proof (cases r1)
    case (Inl e)
    with Pair assms(1) f have "st' = st\<lparr>requests := requests st @ [transcript st]\<rparr>"
      by (simp add: loop_body_def)
    then show ?thesis using wf_turn_grow[OF assms(2), of st' "[]"] by simp
  next
    case (Inr response)
    let ?st2 = "st1\<lparr>heap := heap st1 @ [[]]\<rparr>"
    have 1: "wf_turn ?st2" using f wf_turn_grow[OF assms(2), of ?st2 "[]"] by simp
    have 2: "length (heap st1) < length (heap ?st2)" by simp
    have 3: "process_blocks w b response (length (heap st1)) response True ?st2 = (r, st')"
      using assms(1) Pair Inr by (simp add: loop_body_def)
    from process_blocks_wf_turn[OF 3 1 2] show ?thesis .
  qed
qed

section \<open>The outcome of a tool call\<close>

lemma raised_in_turn_s:
  assumes "process_query_s w s q = (r, st)" "k < length (calls_s st)"
    "answer_s w s (calls_s st) k = Inl m"
  shows "r = Inl (ToolExecutionError m) \<and> Suc k = length (calls_s st) \<and>
      length (tool_results_s (messages_s st)) = k"
  using settled_failed[OF process_query_s_settled[OF assms(1), unfolded settled_s_def] assms(2,3)] .

lemma raised_in_turn:
  assumes "process_query fuel w b q = Some (r, st)" "k < length (calls st)"
    "answer w (calls st) k = Inl m"
  shows "r = Inl (ToolExecutionError m) \<and> Suc k = length (calls st) \<and>
      length (tool_results (messages st)) = k"
  using settled_failed[OF process_query_settled[OF assms(1), unfolded settled_m_def] assms(2,3)] .

lemma raised_in_pass:
  assumes "good w st" "loop_body w b st = (r, st')" "k < length (calls st')"
    "answer w (calls st') k = Inl m"
  shows "process_query_loop (Suc fuel) w b True st = Some (Inl (ToolExecutionError m), st') \<and>
      Suc k = length (calls st') \<and> length (tool_results (messages st')) = k"
proof -
  from loop_body_settled[OF assms(1,2)] have "settled_m w r st'" by simp
  from settled_failed[OF this[unfolded settled_m_def] assms(3,4)]
  have *: "r = Inl (ToolExecutionError m) \<and> Suc k = length (calls st') \<and>
      length (tool_results (messages st')) = k" .
  with assms(2) have "loop_body w b st = (Inl (ToolExecutionError m), st')" by simp
  from process_query_loop_raise[OF this] * show ?thesis by simp
qed

lemma handle_tool_call_returned:
  assumes "tool_to_session b nm = Some s" "call_tool w s (length (calls st)) nm a = Inr result"
  shows "handle_tool_call w b i nm a st =
     (Inr (), st\<lparr>calls := calls st @ [(s, nm, a)],
                messages := messages st @ [ToolResultEntry i (content result)]\<rparr>)"
  using assms by (simp add: handle_tool_call_def Let_def)

lemma process_content_blocks_returned:
  assumes "\<forall>x\<in>set pre. \<not> is_tool_use x"
    and "call_tool w s (length (calls_s st)) nm a = Inr result"
  shows "process_content_blocks w s (pre @ ToolUseBlock i nm a # post) st =
      (Inr True,
       st\<lparr>out_s := out_s st @ map PrintResponse (map text_of (filter is_text pre)) @
              [PrintExecutingTool nm a, PrintToolSuccess],
          calls_s := calls_s st @ [(nm, a)],
          messages_s := messages_s st @
              [AssistantMessage [ToolUseBlock i nm a], ToolResultMessage i (content result)]\<rparr>)"
proof (cases pre)
  case Nil
  then show ?thesis using assms(2) by (simp add: process_content_blocks_def Let_def emit_s_def)
next
  case (Cons c cs)
  then have n: "length (pre @ ToolUseBlock i nm a # post) \<noteq> 1" by simp
  show ?thesis
    using assms(2) unfolding process_content_blocks_def
    by (simp add: process_blocks_s_skip[OF assms(1) n] Let_def emit_s_def del: length_append append.simps)
qed

section \<open>Tool names that are not registered\<close>

lemma process_blocks_unknown:
  assumes "tool_to_session b nm = None"
  shows "\<exists>e st'. process_blocks w b response ac (pre @ ToolUseBlock i nm a # post) pq st = (Inl e, st') \<and>
     (\<forall>pq1 st1. process_blocks w b response ac pre pq st = (Inr pq1, st1) \<longrightarrow>
        e = KeyError nm \<and> calls st' = calls st1 \<and>
        tool_results (messages st') = tool_results (messages st1))"
proof (cases "process_blocks w b response ac pre pq st")
  case (Pair r1 st1)
  show ?thesis
  proof (cases r1)
    case (Inl e)
    with Pair show ?thesis by (simp add: process_blocks_append)
  next
    case (Inr pq1)
    with Pair show ?thesis
      by (simp add: process_blocks_append handle_tool_call_unknown[OF assms] Let_def)
  qed
qed

section \<open>The loop of the multi-server client has no bound\<close>

text \<open>
  With a model that answers every request with two text blocks, the loop is still running
  after any number of passes.
\<close>

lemma multi_client_loop_without_end:
  assumes "\<And>k ms. complete w k ms = Inr [TextBlock t, TextBlock u]"
  shows "process_query_loop fuel w b True st = None"
proof (induction fuel arbitrary: st)
  case 0
  show ?case by simp
next
  case (Suc fuel)
  have "loop_body w b st =
     (Inr (length [TextBlock t, TextBlock u] \<noteq> 1),
      st\<lparr>requests := requests st @ [transcript st], heap := heap st @ [[TextBlock t, TextBlock u]],
         out := out st @ map (\<lambda>x. PrintAssistant (text_of x)) [TextBlock t, TextBlock u]\<rparr>)"
    by (rule loop_body_texts[OF assms]) simp
  then show ?case using Suc.IH by simp
qed

lemma multi_client_turn_without_end:
  assumes "\<And>k ms. complete w k ms = Inr [TextBlock t, TextBlock u]"
  shows "process_query fuel w b q = None"
  unfolding process_query_def using assms by (rule multi_client_loop_without_end)


section \<open>The claims\<close>

subsection \<open>A single text block ends the turn\<close>

text \<open>
  Claim C3. When the model answers with exactly one block and that block is text, the
  turn ends after that round: the text is printed, the loop returns normally, and no tool
  is invoked (the trace of the calls and the transcript are as they were). It holds in
  both clients; in the single-server client the round has to be one the loop still makes
  (\<open>iteration \<le> max_iterations\<close>).
\<close>

theorem single_text_block_ends_turn:
  "(complete w (length (requests st)) (transcript st) = Inr [TextBlock t] \<longrightarrow>
      process_query_loop (Suc fuel) w b True st =
        Some (Inr (), st\<lparr>requests := requests st @ [transcript st],
                heap := heap st @ [[TextBlock t]], out := out st @ [PrintAssistant t]\<rparr>)) \<and>
   (it \<le> max_iterations \<and>
    complete w' (length (requests_s ss)) (messages_s ss) = Inr [TextBlock t'] \<longrightarrow>
      process_query_loop_s w' s it ss =
        (Inr it, ss\<lparr>requests_s := requests_s ss @ [messages_s ss],
           out_s := out_s ss @ [PrintIteration it, PrintSending, PrintReceived 1,
             PrintResponse t', PrintComplete]\<rparr>))"
  using loop_single_text[of w st t fuel b] loop_s_single_text[of it w' ss t' s] by blast

theorem single_text_block_ends_turn_witness:
  "complete (script_world [[TextBlock ''hi'']]) (length (requests (init ''q''))) (transcript (init ''q''))
     = Inr [TextBlock ''hi''] \<and>
   1 \<le> max_iterations \<and>
   complete (script_world [[TextBlock ''hi'']]) (length (requests_s (init_s ''q''))) (messages_s (init_s ''q''))
     = Inr [TextBlock ''hi''] \<and>
   process_query_loop (Suc 0) (script_world [[TextBlock ''hi'']]) example_bot True (init ''q'') =
     Some (Inr (), \<lparr>messages = [UserEntry ''q''], heap = [[TextBlock ''hi'']],
        out = [PrintAssistant ''hi''], calls = [], requests = [[UserMessage ''q'']]\<rparr>) \<and>
   process_query_loop_s (script_world [[TextBlock ''hi'']]) 0 1 (init_s ''q'') =
     (Inr 1, \<lparr>messages_s = [UserMessage ''q''],
        out_s = [PrintStart ''q'', PrintIteration 1, PrintSending, PrintReceived 1,
          PrintResponse ''hi'', PrintComplete],
        calls_s = [], requests_s = [[UserMessage ''q'']]\<rparr>)"
  using single_text_block_ends_turn[where w = "script_world [[TextBlock ''hi'']]" and st = "init ''q''"
      and t = "''hi''" and fuel = 0 and b = example_bot and it = 1
      and w' = "script_world [[TextBlock ''hi'']]" and ss = "init_s ''q''" and t' = "''hi''" and s = 0]
  by (simp add: script_world_def init_def init_s_def transcript_def max_iterations_def)

subsection \<open>Unknown tools\<close>

text \<open>
  Claim C4 says that dispatching a tool-use block resolves the name of the tool in the
  registry, and that a name that is not there fails with the unknown-tool error and aborts
  the turn. The single-server client does not resolve the name: it passes the name the
  model wrote to its one session, whatever the session has listed. With a model that asks
  for a tool \<open>nope\<close> that the server never listed, the call is made, its result is
  appended as a tool result, a second request is sent and the turn ends normally. The
  multi-server client, given the same response and a registry without the name, ends the
  turn with \<open>KeyError\<close> and makes no call.
\<close>

theorem single_client_calls_unlisted_tool:
  "available_tools_s (script_world [[ToolUseBlock ''id1'' ''nope'' ''x'']]) 0 =
     Inr [(''search'', ''find'', ''{}'')] \<and>
   fst (process_query_s (script_world [[ToolUseBlock ''id1'' ''nope'' ''x'']]) 0 ''q'') = Inr () \<and>
   calls_s (snd (process_query_s (script_world [[ToolUseBlock ''id1'' ''nope'' ''x'']]) 0 ''q'')) =
     [(''nope'', ''x'')] \<and>
   messages_s (snd (process_query_s (script_world [[ToolUseBlock ''id1'' ''nope'' ''x'']]) 0 ''q'')) =
     [UserMessage ''q'', AssistantMessage [ToolUseBlock ''id1'' ''nope'' ''x''],
      ToolResultMessage ''id1'' ''nopex''] \<and>
   length (requests_s (snd (process_query_s (script_world [[ToolUseBlock ''id1'' ''nope'' ''x'']]) 0 ''q''))) = 2 \<and>
   tool_to_session example_bot ''nope'' = None \<and>
   map_option fst (process_query 2 (script_world [[ToolUseBlock ''id1'' ''nope'' ''x'']]) example_bot ''q'') =
     Some (Inl (KeyError ''nope'')) \<and>
   map_option (calls \<circ> snd)
     (process_query 2 (script_world [[ToolUseBlock ''id1'' ''nope'' ''x'']]) example_bot ''q'') = Some []"
proof -
  let ?w = "script_world [[ToolUseBlock ''id1'' ''nope'' ''x'']]"
  have 1: "available_tools_s ?w 0 = Inr [(''search'', ''find'', ''{}'')]"
    by (simp add: available_tools_s_def script_world_def search_tool_def)
  have 2: "fst (process_query_s ?w 0 ''q'') = Inr ()" by code_simp
  have 3: "calls_s (snd (process_query_s ?w 0 ''q'')) = [(''nope'', ''x'')]" by code_simp
  have 4: "messages_s (snd (process_query_s ?w 0 ''q'')) =
     [UserMessage ''q'', AssistantMessage [ToolUseBlock ''id1'' ''nope'' ''x''],
      ToolResultMessage ''id1'' ''nopex'']" by code_simp
  have 5: "length (requests_s (snd (process_query_s ?w 0 ''q''))) = 2" by code_simp
  have 6: "tool_to_session example_bot ''nope'' = None" by (simp add: example_bot_def new_bot_def)
  have 7: "map_option fst (process_query 2 ?w example_bot ''q'') = Some (Inl (KeyError ''nope''))"
    by code_simp
  have 8: "map_option (calls \<circ> snd) (process_query 2 ?w example_bot ''q'') = Some []" by code_simp
  from 1 2 3 4 5 6 7 8 show ?thesis by simp
qed

text \<open>
  The lookup of the multi-server client. For every registry and every tool name that is
  not in it, \<open>_handle_tool_call\<close> raises \<open>KeyError\<close> for the name and leaves the state
  as it was. A pass over a response with a tool-use block of such a name always ends the
  turn with an error, wherever the block is in the response; when the blocks before it
  were processed without an error (as they are when none of them is a tool use), the
  error is the \<open>KeyError\<close> for the name, no call is made for the block and no tool
  result is appended for it.
\<close>

theorem unknown_tool_aborts_turn:
  assumes "tool_to_session b nm = None"
    and "complete w (length (requests st)) (transcript st) = Inr (pre @ ToolUseBlock i nm a # post)"
  shows "handle_tool_call w b i nm a st0 = (Inl (KeyError nm), st0) \<and>
    (\<exists>e st'. process_query_loop (Suc fuel) w b True st = Some (Inl e, st') \<and>
       (\<forall>pq1 st1.
          process_blocks w b (pre @ ToolUseBlock i nm a # post) (length (heap st)) pre True
            (st\<lparr>requests := requests st @ [transcript st], heap := heap st @ [[]]\<rparr>) = (Inr pq1, st1) \<longrightarrow>
          e = KeyError nm \<and> calls st' = calls st1 \<and>
          tool_results (messages st') = tool_results (messages st1)) \<and>
       ((\<forall>x\<in>set pre. \<not> is_tool_use x) \<longrightarrow>
          e = KeyError nm \<and> calls st' = calls st \<and>
          tool_results (messages st') = tool_results (messages st)))"
proof -
  let ?resp = "pre @ ToolUseBlock i nm a # post"
  let ?st2 = "st\<lparr>requests := requests st @ [transcript st], heap := heap st @ [[]]\<rparr>"
  have lb: "loop_body w b st = process_blocks w b ?resp (length (heap st)) ?resp True ?st2"
    by (simp add: loop_body_def get_claude_response_Inr[OF assms(2)])
  from process_blocks_unknown[OF assms(1), of w ?resp "length (heap st)" pre i a post True ?st2]
  obtain e st' where
    p: "process_blocks w b ?resp (length (heap st)) ?resp True ?st2 = (Inl e, st')"
    and q: "\<forall>pq1 st1. process_blocks w b ?resp (length (heap st)) pre True ?st2 = (Inr pq1, st1) \<longrightarrow>
        e = KeyError nm \<and> calls st' = calls st1 \<and>
        tool_results (messages st') = tool_results (messages st1)"
    by blast
  have l: "process_query_loop (Suc fuel) w b True st = Some (Inl e, st')"
    using lb p by simp
  have n: "e = KeyError nm \<and> calls st' = calls st \<and>
      tool_results (messages st') = tool_results (messages st)"
    if t: "\<forall>x\<in>set pre. \<not> is_tool_use x"
  proof -
    have ac: "length (heap st) < length (heap ?st2)" by simp
    from process_blocks_no_tool_use[OF t ac, of w b ?resp True] q show ?thesis by simp
  qed
  show ?thesis
    using handle_tool_call_unknown[OF assms(1), of w i a st0] l q n by blast
qed

theorem unknown_tool_aborts_turn_witness:
  "handle_tool_call (script_world [[ToolUseBlock ''id0'' ''search'' ''y'', TextBlock ''t'',
        ToolUseBlock ''id1'' ''nope'' ''x'', ToolUseBlock ''id2'' ''fetch'' ''z'']])
      example_bot ''id1'' ''nope'' ''x'' (init ''q'') = (Inl (KeyError ''nope''), init ''q'') \<and>
   (\<exists>st'. process_query_loop (Suc 0) (script_world [[ToolUseBlock ''id0'' ''search'' ''y'', TextBlock ''t'',
        ToolUseBlock ''id1'' ''nope'' ''x'', ToolUseBlock ''id2'' ''fetch'' ''z'']])
        example_bot True (init ''q'') = Some (Inl (KeyError ''nope''), st') \<and>
      calls st' = [(2, ''search'', ''y'')] \<and> tool_results (messages st') = [(''id0'', ''searchy'')])"
proof -
  let ?pre = "[ToolUseBlock ''id0'' ''search'' ''y'', TextBlock ''t'']"
  let ?resp = "?pre @ ToolUseBlock ''id1'' ''nope'' ''x'' # [ToolUseBlock ''id2'' ''fetch'' ''z'']"
  let ?w = "script_world [?resp]"
  let ?st2 = "(init ''q'')\<lparr>requests := requests (init ''q'') @ [transcript (init ''q'')],
      heap := heap (init ''q'') @ [[]]\<rparr>"
  have h1: "tool_to_session example_bot ''nope'' = None"
    by (simp add: example_bot_def new_bot_def)
  have h2: "complete ?w (length (requests (init ''q''))) (transcript (init ''q'')) = Inr ?resp"
    by (simp add: script_world_def init_def)
  obtain r1 st1 where p: "process_blocks ?w example_bot ?resp (length (heap (init ''q''))) ?pre True ?st2 = (r1, st1)"
    by (cases "process_blocks ?w example_bot ?resp (length (heap (init ''q''))) ?pre True ?st2")
  have "fst (process_blocks ?w example_bot ?resp (length (heap (init ''q''))) ?pre True ?st2) = Inr True"
    by code_simp
  with p have r1: "r1 = Inr True" by simp
  have "calls (snd (process_blocks ?w example_bot ?resp (length (heap (init ''q''))) ?pre True ?st2)) =
      [(2, ''search'', ''y'')]"
    by code_simp
  with p have c1: "calls st1 = [(2, ''search'', ''y'')]" by simp
  have "tool_results (messages (snd (process_blocks ?w example_bot ?resp (length (heap (init ''q''))) ?pre
      True ?st2))) = [(''id0'', ''searchy'')]"
    by code_simp
  with p have t1: "tool_results (messages st1) = [(''id0'', ''searchy'')]" by simp
  note t = unknown_tool_aborts_turn[OF h1 h2, of "init ''q''" 0]
  from t obtain e st' where
    l: "process_query_loop (Suc 0) ?w example_bot True (init ''q'') = Some (Inl e, st')"
    and q: "\<forall>pq1 st1. process_blocks ?w example_bot ?resp (length (heap (init ''q''))) ?pre True ?st2 =
          (Inr pq1, st1) \<longrightarrow>
          e = KeyError ''nope'' \<and> calls st' = calls st1 \<and>
          tool_results (messages st') = tool_results (messages st1)"
    by blast
  from q p r1 have "e = KeyError ''nope'' \<and> calls st' = calls st1 \<and>
          tool_results (messages st') = tool_results (messages st1)" by blast
  with l c1 t1 have "\<exists>st'. process_query_loop (Suc 0) ?w example_bot True (init ''q'') =
        Some (Inl (KeyError ''nope''), st') \<and>
      calls st' = [(2, ''search'', ''y'')] \<and> tool_results (messages st') = [(''id0'', ''searchy'')]"
    by auto
  with t show ?thesis by simp
qed

subsection \<open>Responses of several texts\<close>



subsection \<open>One tool call in a round of the single-server client\<close>

text \<open>
  Claim C10. In the single-server client the processing of a response returns \<open>True\<close>
  right after the first tool call that succeeds: the blocks after that tool-use block are
  neither printed nor appended to the transcript (the result does not depend on them), and
  for every response at most one tool is invoked in a round.
\<close>

theorem first_tool_call_ends_round:
  assumes "\<forall>x\<in>set pre. \<not> is_tool_use x"
    and "call_tool w s (length (calls_s st)) nm a = Inr result"
  shows "process_content_blocks w s (pre @ ToolUseBlock i nm a # post) st =
      (Inr True,
       st\<lparr>out_s := out_s st @ map PrintResponse (map text_of (filter is_text pre)) @
              [PrintExecutingTool nm a, PrintToolSuccess],
          calls_s := calls_s st @ [(nm, a)],
          messages_s := messages_s st @
              [AssistantMessage [ToolUseBlock i nm a], ToolResultMessage i (content result)]\<rparr>) \<and>
    length (calls_s (snd (process_content_blocks w s response st))) \<le> Suc (length (calls_s st))"
proof -
  let ?resp = "pre @ ToolUseBlock i nm a # post"
  have "process_blocks_s w s (length ?resp) ?resp st =
      (Inr True,
       st\<lparr>out_s := out_s st @ map PrintResponse (map text_of (filter is_text pre)) @
              [PrintExecutingTool nm a, PrintToolSuccess],
          calls_s := calls_s st @ [(nm, a)],
          messages_s := messages_s st @
              [AssistantMessage [ToolUseBlock i nm a], ToolResultMessage i (content result)]\<rparr>)"
  proof (cases pre)
    case Nil
    then show ?thesis using assms(2) by (simp add: Let_def emit_s_def)
  next
    case (Cons c cs)
    then have n: "length ?resp \<noteq> 1" by simp
    show ?thesis
      using assms(2)
      by (simp add: process_blocks_s_skip[OF assms(1) n] Let_def emit_s_def del: length_append append.simps)
  qed
  then show ?thesis
    using process_blocks_s_calls[of w s "length response" response st]
    by (simp add: process_content_blocks_def)
qed

theorem first_tool_call_ends_round_witness:
  "call_tool (script_world []) 0 (length (calls_s (init_s ''q''))) ''search'' ''x'' =
      Inr \<lparr>isError = False, content = ''searchx''\<rparr> \<and>
   process_content_blocks (script_world []) 0
      ([TextBlock ''t''] @ ToolUseBlock ''id1'' ''search'' ''x'' #
         [TextBlock ''u'', ToolUseBlock ''id2'' ''fetch'' ''y'']) (init_s ''q'') =
      (Inr True,
       \<lparr>messages_s = [UserMessage ''q'', AssistantMessage [ToolUseBlock ''id1'' ''search'' ''x''],
            ToolResultMessage ''id1'' ''searchx''],
        out_s = [PrintStart ''q'', PrintResponse ''t'', PrintExecutingTool ''search'' ''x'', PrintToolSuccess],
        calls_s = [(''search'', ''x'')], requests_s = []\<rparr>) \<and>
   length (calls_s (snd (process_content_blocks (script_world []) 0
      [ToolUseBlock ''id1'' ''fail'' ''x'', ToolUseBlock ''id2'' ''fetch'' ''y''] (init_s ''q'')))) \<le> Suc 0"
proof -
  have h1: "\<forall>x\<in>set [TextBlock ''t'']. \<not> is_tool_use x" by simp
  have h2: "call_tool (script_world []) 0 (length (calls_s (init_s ''q''))) ''search'' ''x'' =
      Inr \<lparr>isError = False, content = ''searchx''\<rparr>"
    by (simp add: script_world_def)
  show ?thesis
    using h1 h2 first_tool_call_ends_round[OF h1 h2, of "''id1''"
        "[TextBlock ''u'', ToolUseBlock ''id2'' ''fetch'' ''y'']"
        "[ToolUseBlock ''id1'' ''fail'' ''x'', ToolUseBlock ''id2'' ''fetch'' ''y'']"]
    by (simp add: init_s_def)
qed

subsection \<open>The tool registry\<close>

text \<open>
  Claim C7. The registry \<open>tool_to_session\<close> is a dictionary, so a name in it has
  exactly one session. After \<open>connect_to_servers\<close> it is the registry from before
  overwritten with the registrations of the servers that were connected, in the order the
  program made them (server after server in the order of the configuration, the tools of a
  server in the order it lists them, as \<open>available_tools\<close> records): the last
  registration of a name wins, and a name that was not registered keeps what it had.
\<close>

theorem registry_last_registration_wins:
  "tool_to_session (snd (connect_to_servers w (Inr (Some servers)) b)) =
     tool_to_session b ++ map_of (rev (registrations w (takeWhile (connects w) servers))) \<and>
   map td_name (available_tools (snd (connect_to_servers w (Inr (Some servers)) b))) =
     map td_name (available_tools b) @ map fst (registrations w (takeWhile (connects w) servers)) \<and>
   (\<forall>xs nm s ys. registrations w (takeWhile (connects w) servers) = xs @ (nm, s) # ys \<and>
        nm \<notin> fst ` set ys \<longrightarrow>
      tool_to_session (snd (connect_to_servers w (Inr (Some servers)) b)) nm = Some s) \<and>
   (\<forall>nm. nm \<notin> fst ` set (registrations w (takeWhile (connects w) servers)) \<longrightarrow>
      tool_to_session (snd (connect_to_servers w (Inr (Some servers)) b)) nm = tool_to_session b nm)"
proof -
  let ?b' = "snd (connect_to_servers w (Inr (Some servers)) b)"
  let ?regs = "registrations w (takeWhile (connects w) servers)"
  have e: "?b' = snd (connect_loop w servers b)" by (simp add: connect_to_servers_def)
  have 1: "tool_to_session ?b' = tool_to_session b ++ map_of (rev ?regs)"
    and 2: "map td_name (available_tools ?b') = map td_name (available_tools b) @ map fst ?regs"
    using connect_loop_registry[of w servers b] unfolding e by simp_all
  have 3: "tool_to_session ?b' nm = Some s" if "?regs = xs @ (nm, s) # ys" "nm \<notin> fst ` set ys"
    for xs nm s ys
    using map_of_rev_last[OF that(2), of xs s] that(1) by (simp add: 1 map_add_def)
  have 4: "tool_to_session ?b' nm = tool_to_session b nm" if "nm \<notin> fst ` set ?regs" for nm
  proof -
    have "map_of (rev ?regs) nm = None" using that by (simp add: map_of_eq_None_iff)
    then show ?thesis by (simp add: 1 map_add_def)
  qed
  show ?thesis using 1 2 3 4 by blast
qed

theorem registry_last_registration_wins_witness:
  "tool_to_session (snd (connect_to_servers (script_world [])
       (Inr (Some [(''a'', ''ok''), (''bb'', ''ok'')])) new_bot)) ''search'' = Some 2 \<and>
   tool_to_session (snd (connect_to_servers (script_world [])
       (Inr (Some [(''a'', ''ok''), (''bb'', ''ok'')])) new_bot)) ''fetch'' = Some 1 \<and>
   tool_to_session (snd (connect_to_servers (script_world [])
       (Inr (Some [(''a'', ''ok''), (''bb'', ''ok'')])) new_bot)) ''other'' = None \<and>
   map td_name (available_tools (snd (connect_to_servers (script_world [])
       (Inr (Some [(''a'', ''ok''), (''bb'', ''ok'')])) new_bot))) = [''search'', ''fetch'', ''search'']"
proof -
  let ?w = "script_world []"
  let ?servers = "[(''a'', ''ok''), (''bb'', ''ok'')]"
  have c: "connects ?w (''a'', ''ok'')" "connects ?w (''bb'', ''ok'')"
    by (simp_all add: connects_def script_world_def)
  have r: "registrations ?w (takeWhile (connects ?w) ?servers) =
      [(''search'', 1), (''fetch'', 1)] @ (''search'', 2) # []"
    using c by (simp add: registrations_def advertised_def script_world_def search_tool_def fetch_tool_def)
  have r2: "registrations ?w (takeWhile (connects ?w) ?servers) =
      [(''search'', 1)] @ (''fetch'', 1) # [(''search'', 2)]"
    using r by simp
  note t = registry_last_registration_wins[of ?w ?servers new_bot]
  note last_wins = t[THEN conjunct2, THEN conjunct2, THEN conjunct1, rule_format, OF conjI]
  note untouched = t[THEN conjunct2, THEN conjunct2, THEN conjunct2, rule_format]
  have 1: "tool_to_session (snd (connect_to_servers ?w (Inr (Some ?servers)) new_bot)) ''search'' = Some 2"
    by (rule last_wins[OF r]) simp
  have 2: "tool_to_session (snd (connect_to_servers ?w (Inr (Some ?servers)) new_bot)) ''fetch'' = Some 1"
    by (rule last_wins[OF r2]) simp
  have 3: "tool_to_session (snd (connect_to_servers ?w (Inr (Some ?servers)) new_bot)) ''other'' = None"
  proof -
    have "''other'' \<notin> fst ` set (registrations ?w (takeWhile (connects ?w) ?servers))"
      unfolding r by simp
    from untouched[OF this] show ?thesis by (simp add: new_bot_def)
  qed
  have 4: "map td_name (available_tools (snd (connect_to_servers ?w (Inr (Some ?servers)) new_bot))) =
      [''search'', ''fetch'', ''search'']"
    using t[THEN conjunct2, THEN conjunct1] unfolding r by (simp add: new_bot_def)
  show ?thesis using 1 2 3 4 by simp
qed

subsection \<open>Connecting fails fast\<close>

text \<open>
  Claim C8. \<open>connect_to_servers\<close> connects the servers of the configuration one after
  the other; when all connect, each was launched once, in order. When a server fails to
  connect after servers that did connect, the error leaves \<open>connect_to_servers\<close>, the
  servers launched are those up to the failing one and none after it, and the entries
  after the failing one have no influence on the outcome.
\<close>

theorem connect_fail_fast:
  "((\<forall>x\<in>set servers. connects w x) \<longrightarrow>
      (\<exists>b'. connect_to_servers w (Inr (Some servers)) b = (Inr (), b') \<and>
         launched b' = launched b @ map fst servers)) \<and>
   ((\<forall>x\<in>set pre. connects w x) \<and> \<not> connects w sv \<longrightarrow>
      (\<exists>m b'. connect_to_servers w (Inr (Some (pre @ sv # post))) b = (Inl (ConnectionError m), b') \<and>
         launched b' = launched b @ map fst pre @ [fst sv] \<and>
         connect_to_servers w (Inr (Some (pre @ sv # post))) b =
           connect_to_servers w (Inr (Some (pre @ [sv]))) b))"
proof (intro conjI impI)
  assume "\<forall>x\<in>set servers. connects w x"
  from connect_loop_all[OF this, of b]
  show "\<exists>b'. connect_to_servers w (Inr (Some servers)) b = (Inr (), b') \<and>
         launched b' = launched b @ map fst servers"
    by (auto simp: connect_to_servers_def)
next
  assume a: "(\<forall>x\<in>set pre. connects w x) \<and> \<not> connects w sv"
  then have p: "\<forall>x\<in>set pre. connects w x" and n: "\<not> connects w sv" by simp_all
  from connect_loop_fail_fast[OF p n, of post b] obtain m b1 where
    1: "connect_loop w (pre @ sv # post) b = (Inl (ConnectionError m), b1)"
       "launched b1 = launched b @ map fst pre @ [fst sv]" by blast
  have "connect_loop w (pre @ sv # post) b = connect_loop w (pre @ [sv]) b"
    using n by (rule connect_loop_cut)
  with 1 show "\<exists>m b'. connect_to_servers w (Inr (Some (pre @ sv # post))) b = (Inl (ConnectionError m), b') \<and>
         launched b' = launched b @ map fst pre @ [fst sv] \<and>
         connect_to_servers w (Inr (Some (pre @ sv # post))) b =
           connect_to_servers w (Inr (Some (pre @ [sv]))) b"
    by (simp add: connect_to_servers_def)
qed

theorem connect_fail_fast_witness:
  "(\<exists>b'. connect_to_servers (script_world []) (Inr (Some [(''a'', ''ok''), (''bb'', ''ok'')])) new_bot = (Inr (), b') \<and>
      launched b' = [''a'', ''bb'']) \<and>
   (\<exists>m b'. connect_to_servers (script_world [])
        (Inr (Some ([(''a'', ''ok''), (''bb'', ''ok'')] @ (''c'', ''bad'') # [(''d'', ''ok'')]))) new_bot =
        (Inl (ConnectionError m), b') \<and>
      launched b' = [''a'', ''bb'', ''c''])"
proof -
  let ?w = "script_world []"
  have c: "\<forall>x\<in>set [(''a'', ''ok''), (''bb'', ''ok'')]. connects ?w x"
    by (simp add: connects_def script_world_def)
  have n: "\<not> connects ?w (''c'', ''bad'')" by (simp add: connects_def script_world_def)
  note t = connect_fail_fast[of "[(''a'', ''ok''), (''bb'', ''ok'')]" ?w new_bot
      "[(''a'', ''ok''), (''bb'', ''ok'')]" "(''c'', ''bad'')" "[(''d'', ''ok'')]"]
  from t[THEN conjunct1, THEN mp, OF c]
  have 1: "\<exists>b'. connect_to_servers ?w (Inr (Some [(''a'', ''ok''), (''bb'', ''ok'')])) new_bot = (Inr (), b') \<and>
      launched b' = [''a'', ''bb'']"
    by (simp add: new_bot_def)
  from t[THEN conjunct2, THEN mp, OF conjI, OF c n]
  obtain m b' where "connect_to_servers ?w
        (Inr (Some ([(''a'', ''ok''), (''bb'', ''ok'')] @ (''c'', ''bad'') # [(''d'', ''ok'')]))) new_bot =
        (Inl (ConnectionError m), b')"
      "launched b' = launched new_bot @ map fst [(''a'', ''ok''), (''bb'', ''ok'')] @ [fst (''c'', ''bad'')]"
    by (elim exE conjE)
  then have 2: "\<exists>m b'. connect_to_servers ?w
        (Inr (Some ([(''a'', ''ok''), (''bb'', ''ok'')] @ (''c'', ''bad'') # [(''d'', ''ok'')]))) new_bot =
        (Inl (ConnectionError m), b') \<and>
      launched b' = [''a'', ''bb'', ''c'']"
    by (intro exI[of _ m] exI[of _ b']) (simp add: new_bot_def)
  show ?thesis using 1 2 by simp
qed

subsection \<open>Tool failures\<close>

text \<open>
  Claim C5 says that no tool call that fails gets a tool result. A tool can fail in two
  ways: the call raises, or the call returns a result that the server flagged with
  \<open>isError\<close>. Neither client reads the flag. With a tool whose result is flagged, both
  clients append the content of the result to the transcript as a tool result, and the
  turn goes on and ends normally.
\<close>

theorem flagged_tool_result_is_appended:
  "call_tool (script_world [[ToolUseBlock ''id1'' ''broken'' ''x'']]) 0 0 ''broken'' ''x'' =
     Inr \<lparr>isError = True, content = ''brokenx''\<rparr> \<and>
   fst (process_query_s (script_world [[ToolUseBlock ''id1'' ''broken'' ''x'']]) 0 ''q'') = Inr () \<and>
   calls_s (snd (process_query_s (script_world [[ToolUseBlock ''id1'' ''broken'' ''x'']]) 0 ''q'')) =
     [(''broken'', ''x'')] \<and>
   tool_results_s (messages_s (snd (process_query_s
       (script_world [[ToolUseBlock ''id1'' ''broken'' ''x'']]) 0 ''q''))) = [(''id1'', ''brokenx'')] \<and>
   call_tool (script_world [[ToolUseBlock ''id1'' ''broken'' ''x'']]) 1 0 ''broken'' ''x'' =
     Inr \<lparr>isError = True, content = ''brokenx''\<rparr> \<and>
   map_option fst (process_query 2 (script_world [[ToolUseBlock ''id1'' ''broken'' ''x'']])
       example_bot ''q'') = Some (Inr ()) \<and>
   map_option (calls \<circ> snd) (process_query 2 (script_world [[ToolUseBlock ''id1'' ''broken'' ''x'']])
       example_bot ''q'') = Some [(1, ''broken'', ''x'')] \<and>
   map_option (tool_results \<circ> messages \<circ> snd)
     (process_query 2 (script_world [[ToolUseBlock ''id1'' ''broken'' ''x'']]) example_bot ''q'') =
     Some [(''id1'', ''brokenx'')]"
proof -
  let ?w = "script_world [[ToolUseBlock ''id1'' ''broken'' ''x'']]"
  have 1: "call_tool ?w s 0 ''broken'' ''x'' = Inr \<lparr>isError = True, content = ''brokenx''\<rparr>" for s
    by (simp add: script_world_def)
  have 2: "fst (process_query_s ?w 0 ''q'') = Inr ()" by code_simp
  have 3: "calls_s (snd (process_query_s ?w 0 ''q'')) = [(''broken'', ''x'')]" by code_simp
  have 4: "tool_results_s (messages_s (snd (process_query_s ?w 0 ''q''))) = [(''id1'', ''brokenx'')]"
    by code_simp
  have 5: "map_option fst (process_query 2 ?w example_bot ''q'') = Some (Inr ())" by code_simp
  have 6: "map_option (calls \<circ> snd) (process_query 2 ?w example_bot ''q'') = Some [(1, ''broken'', ''x'')]"
    by code_simp
  have 7: "map_option (tool_results \<circ> messages \<circ> snd) (process_query 2 ?w example_bot ''q'') =
     Some [(''id1'', ''brokenx'')]"
    by code_simp
  from 1 2 3 4 5 6 7 show ?thesis by simp
qed

text \<open>
  Claim C5, for the calls that raise. In both clients: whenever an invocation in the trace
  of a turn raised, it is the last invocation the turn made, the turn ended with that
  error (\<open>ToolExecutionError\<close>), and the transcript holds a tool result for each of the
  invocations before it and none for the one that raised. In the multi-server client,
  whose loop has no bound, the pass in which the call raises is also the one in which the
  loop returns the error, whatever number of passes is left. A call that returns a result
  gets a tool result with the content of that result, and the processing goes on, whatever
  the result is: in the single-server client the round ends with \<open>should_continue\<close>
  set, in the multi-server client \<open>_handle_tool_call\<close> returns normally.
\<close>

theorem raised_tool_error_aborts_turn:
  "(process_query_s w s q = (r, st) \<and> k < length (calls_s st) \<and>
      answer_s w s (calls_s st) k = Inl m \<longrightarrow>
    r = Inl (ToolExecutionError m) \<and> Suc k = length (calls_s st) \<and>
    length (tool_results_s (messages_s st)) = k) \<and>
   (process_query fuel w b q = Some (r', mt) \<and> k < length (calls mt) \<and>
      answer w (calls mt) k = Inl m \<longrightarrow>
    r' = Inl (ToolExecutionError m) \<and> Suc k = length (calls mt) \<and>
    length (tool_results (messages mt)) = k) \<and>
   (good w ma \<and> loop_body w b ma = (rb, mb) \<and> k < length (calls mb) \<and>
      answer w (calls mb) k = Inl m \<longrightarrow>
    process_query_loop (Suc fuel) w b True ma = Some (Inl (ToolExecutionError m), mb) \<and>
    Suc k = length (calls mb) \<and> length (tool_results (messages mb)) = k) \<and>
   ((\<forall>x\<in>set pre. \<not> is_tool_use x) \<and> call_tool w s (length (calls_s st)) nm a = Inr result \<longrightarrow>
    process_content_blocks w s (pre @ ToolUseBlock i nm a # post) st =
      (Inr True,
       st\<lparr>out_s := out_s st @ map PrintResponse (map text_of (filter is_text pre)) @
              [PrintExecutingTool nm a, PrintToolSuccess],
          calls_s := calls_s st @ [(nm, a)],
          messages_s := messages_s st @
              [AssistantMessage [ToolUseBlock i nm a], ToolResultMessage i (content result)]\<rparr>)) \<and>
   (tool_to_session b nm = Some sn \<and> call_tool w sn (length (calls mt)) nm a = Inr result \<longrightarrow>
    handle_tool_call w b i nm a mt =
      (Inr (), mt\<lparr>calls := calls mt @ [(sn, nm, a)],
                 messages := messages mt @ [ToolResultEntry i (content result)]\<rparr>))"
  using raised_in_turn_s[of w s q r st k m] raised_in_turn[of fuel w b q r' mt k m]
    raised_in_pass[of w ma b rb mb k m fuel]
    process_content_blocks_returned[of pre w s st nm a result i post]
    handle_tool_call_returned[of b nm sn w mt a result i]
  by blast

theorem raised_tool_error_aborts_turn_witness:
  "fst (process_query_s (script_world [[TextBlock ''t'', ToolUseBlock ''id1'' ''search'' ''x''],
          [ToolUseBlock ''id2'' ''fail'' ''y'', ToolUseBlock ''id3'' ''fetch'' ''z'']]) 0 ''q'')
     = Inl (ToolExecutionError ''boom'') \<and>
   length (tool_results_s (messages_s (snd (process_query_s
        (script_world [[TextBlock ''t'', ToolUseBlock ''id1'' ''search'' ''x''],
          [ToolUseBlock ''id2'' ''fail'' ''y'', ToolUseBlock ''id3'' ''fetch'' ''z'']]) 0 ''q'')))) = 1 \<and>
   (\<exists>mt. process_query 2 (script_world [[ToolUseBlock ''id1'' ''search'' ''x'',
          ToolUseBlock ''id2'' ''fail'' ''y'', ToolUseBlock ''id3'' ''fetch'' ''z'']]) example_bot ''q''
        = Some (Inl (ToolExecutionError ''boom''), mt) \<and>
      calls mt = [(2, ''search'', ''x''), (1, ''fail'', ''y'')] \<and>
      length (tool_results (messages mt)) = 1) \<and>
   (\<exists>mt. process_query_loop (Suc 0) (script_world [[ToolUseBlock ''id1'' ''search'' ''x'',
          ToolUseBlock ''id2'' ''fail'' ''y'', ToolUseBlock ''id3'' ''fetch'' ''z'']]) example_bot True
          (init ''q'')
        = Some (Inl (ToolExecutionError ''boom''), mt) \<and>
      length (tool_results (messages mt)) = 1) \<and>
   isError \<lparr>isError = True, content = ''brokenx''\<rparr> \<and>
   process_content_blocks (script_world []) 0
       ([TextBlock ''t''] @ ToolUseBlock ''id1'' ''broken'' ''x'' # [TextBlock ''u'']) (init_s ''q'') =
     (Inr True,
      \<lparr>messages_s = [UserMessage ''q'', AssistantMessage [ToolUseBlock ''id1'' ''broken'' ''x''],
           ToolResultMessage ''id1'' ''brokenx''],
       out_s = [PrintStart ''q'', PrintResponse ''t'', PrintExecutingTool ''broken'' ''x'', PrintToolSuccess],
       calls_s = [(''broken'', ''x'')], requests_s = []\<rparr>) \<and>
   handle_tool_call (script_world []) example_bot ''id1'' ''broken'' ''x'' (init ''q'') =
     (Inr (),
      \<lparr>messages = [UserEntry ''q'', ToolResultEntry ''id1'' ''brokenx''], heap = [], out = [],
       calls = [(1, ''broken'', ''x'')], requests = []\<rparr>)"
proof -
  let ?w1 = "script_world [[TextBlock ''t'', ToolUseBlock ''id1'' ''search'' ''x''],
          [ToolUseBlock ''id2'' ''fail'' ''y'', ToolUseBlock ''id3'' ''fetch'' ''z'']]"
  let ?w2 = "script_world [[ToolUseBlock ''id1'' ''search'' ''x'',
          ToolUseBlock ''id2'' ''fail'' ''y'', ToolUseBlock ''id3'' ''fetch'' ''z'']]"
  let ?res = "\<lparr>isError = True, content = ''brokenx''\<rparr>"
  have boom: "call_tool ?w1 s k ''fail'' a = Inl ''boom''" "call_tool ?w2 s k ''fail'' a = Inl ''boom''"
    for s k a
    by (simp_all add: script_world_def)
  \<comment> \<open>the single-server client\<close>
  obtain r st where p1: "process_query_s ?w1 0 ''q'' = (r, st)" by (cases "process_query_s ?w1 0 ''q''")
  have "calls_s (snd (process_query_s ?w1 0 ''q'')) = [(''search'', ''x''), (''fail'', ''y'')]"
    by code_simp
  with p1 have c1: "calls_s st = [(''search'', ''x''), (''fail'', ''y'')]" by simp
  have h1: "process_query_s ?w1 0 ''q'' = (r, st) \<and> 1 < length (calls_s st) \<and>
      answer_s ?w1 0 (calls_s st) 1 = Inl ''boom''"
    using p1 c1 boom by (simp add: answer_s_def)
  note t1 = raised_tool_error_aborts_turn[where w = ?w1 and s = 0 and q = "''q''" and r = r
      and st = st and k = 1 and m = "''boom''", THEN conjunct1, THEN mp, OF h1]
  \<comment> \<open>the multi-server client, a whole turn\<close>
  have "process_query 2 ?w2 example_bot ''q'' \<noteq> None" by code_simp
  then obtain r' mt where p2: "process_query 2 ?w2 example_bot ''q'' = Some (r', mt)" by auto
  have "map_option (\<lambda>x. calls (snd x)) (process_query 2 ?w2 example_bot ''q'') =
      Some [(2, ''search'', ''x''), (1, ''fail'', ''y'')]"
    by code_simp
  with p2 have c2: "calls mt = [(2, ''search'', ''x''), (1, ''fail'', ''y'')]" by simp
  have h2: "process_query 2 ?w2 example_bot ''q'' = Some (r', mt) \<and> 1 < length (calls mt) \<and>
      answer ?w2 (calls mt) 1 = Inl ''boom''"
    using p2 c2 boom by (simp add: answer_def)
  note t2 = raised_tool_error_aborts_turn[where w = ?w2 and fuel = 2 and b = example_bot
      and q = "''q''" and r' = r' and mt = mt and k = 1 and m = "''boom''",
      THEN conjunct2, THEN conjunct1, THEN mp, OF h2]
  \<comment> \<open>the multi-server client, the pass in which the call raises\<close>
  obtain r1 mt1 where p3: "loop_body ?w2 example_bot (init ''q'') = (r1, mt1)"
    by (cases "loop_body ?w2 example_bot (init ''q'')")
  have "calls (snd (loop_body ?w2 example_bot (init ''q''))) = [(2, ''search'', ''x''), (1, ''fail'', ''y'')]"
    by code_simp
  with p3 have c3: "calls mt1 = [(2, ''search'', ''x''), (1, ''fail'', ''y'')]" by simp
  have h3: "good ?w2 (init ''q'') \<and> loop_body ?w2 example_bot (init ''q'') = (r1, mt1) \<and>
      1 < length (calls mt1) \<and> answer ?w2 (calls mt1) 1 = Inl ''boom''"
    using p3 c3 boom good_init by (simp add: answer_def)
  note t3 = raised_tool_error_aborts_turn[where w = ?w2 and fuel = 0 and b = example_bot
      and ma = "init ''q''" and rb = r1 and mb = mt1 and k = 1 and m = "''boom''",
      THEN conjunct2, THEN conjunct2, THEN conjunct1, THEN mp, OF h3]
  \<comment> \<open>a result that is flagged as an error, in both clients\<close>
  have h4: "(\<forall>x\<in>set [TextBlock ''t'']. \<not> is_tool_use x) \<and>
      call_tool (script_world []) 0 (length (calls_s (init_s ''q''))) ''broken'' ''x'' = Inr ?res"
    by (simp add: script_world_def)
  note t4 = raised_tool_error_aborts_turn[where w = "script_world []" and s = 0
      and st = "init_s ''q''" and pre = "[TextBlock ''t'']" and nm = "''broken''" and a = "''x''"
      and result = ?res and i = "''id1''" and post = "[TextBlock ''u'']",
      THEN conjunct2, THEN conjunct2, THEN conjunct2, THEN conjunct1, THEN mp, OF h4]
  have h5: "tool_to_session example_bot ''broken'' = Some 1 \<and>
      call_tool (script_world []) 1 (length (calls (init ''q''))) ''broken'' ''x'' = Inr ?res"
    by (simp add: script_world_def example_bot_def new_bot_def)
  note t5 = raised_tool_error_aborts_turn[where w = "script_world []" and b = example_bot
      and mt = "init ''q''" and sn = 1 and nm = "''broken''" and a = "''x''"
      and result = ?res and i = "''id1''",
      THEN conjunct2, THEN conjunct2, THEN conjunct2, THEN conjunct2, THEN mp, OF h5]
  show ?thesis
  proof (intro conjI)
    show "fst (process_query_s ?w1 0 ''q'') = Inl (ToolExecutionError ''boom'')"
      using t1 p1 by simp
    show "length (tool_results_s (messages_s (snd (process_query_s ?w1 0 ''q'')))) = 1"
      using t1 p1 by simp
    show "\<exists>mt. process_query 2 ?w2 example_bot ''q'' = Some (Inl (ToolExecutionError ''boom''), mt) \<and>
      calls mt = [(2, ''search'', ''x''), (1, ''fail'', ''y'')] \<and>
      length (tool_results (messages mt)) = 1"
      using t2 p2 c2 by simp
    show "\<exists>mt. process_query_loop (Suc 0) ?w2 example_bot True (init ''q'')
        = Some (Inl (ToolExecutionError ''boom''), mt) \<and> length (tool_results (messages mt)) = 1"
      using t3 by simp
    show "isError ?res" by simp
    show "process_content_blocks (script_world []) 0
       ([TextBlock ''t''] @ ToolUseBlock ''id1'' ''broken'' ''x'' # [TextBlock ''u'']) (init_s ''q'') =
     (Inr True,
      \<lparr>messages_s = [UserMessage ''q'', AssistantMessage [ToolUseBlock ''id1'' ''broken'' ''x''],
           ToolResultMessage ''id1'' ''brokenx''],
       out_s = [PrintStart ''q'', PrintResponse ''t'', PrintExecutingTool ''broken'' ''x'', PrintToolSuccess],
       calls_s = [(''broken'', ''x'')], requests_s = []\<rparr>)"
      using t4 by (simp add: init_s_def)
    show "handle_tool_call (script_world []) example_bot ''id1'' ''broken'' ''x'' (init ''q'') =
     (Inr (),
      \<lparr>messages = [UserEntry ''q'', ToolResultEntry ''id1'' ''brokenx''], heap = [], out = [],
       calls = [(1, ''broken'', ''x'')], requests = []\<rparr>)"
      using t5 by (simp add: init_def)
  qed
qed

subsection \<open>The bound on the rounds\<close>

text \<open>
  Claim C2 says that the rounds of \<open>process_query\<close> never exceed the configured
  maximum, and that reaching the maximum ends the turn with a warning. The multi-server
  client has no maximum: nothing counts the passes of its loop. With a model that asks
  for a tool eleven times the turn takes twelve rounds, more than the \<open>max_iterations\<close>
  of the single-server client, and it ends without a warning.
\<close>

theorem multi_client_rounds_exceed_maximum:
  "map_option (length \<circ> requests \<circ> snd)
     (process_query 12 (script_world (replicate 11 [ToolUseBlock ''id'' ''search'' ''x'']))
        example_bot ''q'') = Some 12 \<and>
   map_option fst
     (process_query 12 (script_world (replicate 11 [ToolUseBlock ''id'' ''search'' ''x'']))
        example_bot ''q'') = Some (Inr ()) \<and>
   map_option (out \<circ> snd)
     (process_query 12 (script_world (replicate 11 [ToolUseBlock ''id'' ''search'' ''x'']))
        example_bot ''q'') = Some [PrintAssistant ''done''] \<and>
   max_iterations < 12"
  by code_simp

text \<open>
  The single-server client has the bound. A turn makes at most \<open>max_iterations\<close>
  requests to the model. When the loop is left by its condition (every one of the rounds
  asked to go on), \<open>max_iterations\<close> requests were made, the warning is printed and
  \<open>process_query\<close> returns normally: no error is raised.
\<close>

theorem single_client_round_bound:
  "length (requests_s (snd (process_query_s w s q))) \<le> max_iterations \<and>
   (process_query_loop_s w s 1 (init_s q) = (Inr k, st) \<and> max_iterations < k \<longrightarrow>
      process_query_s w s q = (Inr (), emit_s PrintMaxIterations st) \<and>
      length (requests_s st) = max_iterations)"
proof -
  obtain r0 st0 where l: "process_query_loop_s w s 1 (init_s q) = (r0, st0)"
    by (cases "process_query_loop_s w s 1 (init_s q)")
  have "length (requests_s st0) \<le> max_iterations"
    using loop_s_requests[OF l] by (simp add: init_s_def)
  then have 1: "length (requests_s (snd (process_query_s w s q))) \<le> max_iterations"
    using process_query_s_requests[OF l] by simp
  have 2: "process_query_s w s q = (Inr (), emit_s PrintMaxIterations st) \<and>
      length (requests_s st) = max_iterations"
    if a: "process_query_loop_s w s 1 (init_s q) = (Inr k, st) \<and> max_iterations < k"
  proof -
    from a have e: "process_query_loop_s w s 1 (init_s q) = (Inr k, st)" and k: "max_iterations < k"
      by simp_all
    have "length (requests_s st) = max_iterations"
      using loop_s_exhausted[OF e _ k] by (simp add: init_s_def)
    then show ?thesis using e k by (simp add: process_query_s_def)
  qed
  from 1 2 show ?thesis by blast
qed

theorem single_client_round_bound_witness:
  "length (requests_s (snd (process_query_s
      (script_world (replicate 12 [ToolUseBlock ''id'' ''search'' ''x''])) 0 ''q''))) = max_iterations \<and>
   fst (process_query_s (script_world (replicate 12 [ToolUseBlock ''id'' ''search'' ''x''])) 0 ''q'') = Inr () \<and>
   last (out_s (snd (process_query_s
      (script_world (replicate 12 [ToolUseBlock ''id'' ''search'' ''x''])) 0 ''q''))) = PrintMaxIterations"
proof -
  let ?w = "script_world (replicate 12 [ToolUseBlock ''id'' ''search'' ''x''])"
  obtain r st where l: "process_query_loop_s ?w 0 1 (init_s ''q'') = (r, st)"
    by (cases "process_query_loop_s ?w 0 1 (init_s ''q'')")
  have "fst (process_query_loop_s ?w 0 1 (init_s ''q'')) = Inr 11" by code_simp
  with l have r: "r = Inr 11" by simp
  have h: "process_query_loop_s ?w 0 1 (init_s ''q'') = (Inr 11, st) \<and> max_iterations < 11"
    using l r by (simp add: max_iterations_def)
  note t = single_client_round_bound[where w = ?w and s = 0 and q = "''q''" and k = 11 and st = st,
      THEN conjunct2, THEN mp, OF h]
  then show ?thesis using process_query_s_requests[OF l] by simp
qed

subsection \<open>One dispatch for each tool-use block\<close>

text \<open>
  Claim C1 says that a response with \<open>N\<close> tool-use blocks leads to \<open>N\<close> tool
  invocations, in the order of the blocks, and to \<open>N\<close> tool results, each with the id
  of its block. The single-server client returns from \<open>_process_content_blocks\<close> at the
  first tool call that succeeds. For a response with two tool-use blocks it invokes the
  first tool only and appends one tool result; the second block is in no request that
  follows, it is never dispatched, and the turn ends normally.
\<close>

theorem single_client_dispatches_first_tool_only:
  "length (tool_uses [ToolUseBlock ''id1'' ''search'' ''x'', ToolUseBlock ''id2'' ''fetch'' ''y'']) = 2 \<and>
   fst (process_query_s (script_world [[ToolUseBlock ''id1'' ''search'' ''x'',
        ToolUseBlock ''id2'' ''fetch'' ''y'']]) 0 ''q'') = Inr () \<and>
   calls_s (snd (process_query_s (script_world [[ToolUseBlock ''id1'' ''search'' ''x'',
        ToolUseBlock ''id2'' ''fetch'' ''y'']]) 0 ''q'')) = [(''search'', ''x'')] \<and>
   tool_results_s (messages_s (snd (process_query_s (script_world [[ToolUseBlock ''id1'' ''search'' ''x'',
        ToolUseBlock ''id2'' ''fetch'' ''y'']]) 0 ''q''))) = [(''id1'', ''searchx'')] \<and>
   requests_s (snd (process_query_s (script_world [[ToolUseBlock ''id1'' ''search'' ''x'',
        ToolUseBlock ''id2'' ''fetch'' ''y'']]) 0 ''q'')) =
     [[UserMessage ''q''],
      [UserMessage ''q'', AssistantMessage [ToolUseBlock ''id1'' ''search'' ''x''],
       ToolResultMessage ''id1'' ''searchx'']] \<and>
   map_option (calls \<circ> snd) (process_query 2 (script_world [[ToolUseBlock ''id1'' ''search'' ''x'',
        ToolUseBlock ''id2'' ''fetch'' ''y'']]) example_bot ''q'') =
     Some [(2, ''search'', ''x''), (1, ''fetch'', ''y'')] \<and>
   map_option (tool_results \<circ> messages \<circ> snd)
     (process_query 2 (script_world [[ToolUseBlock ''id1'' ''search'' ''x'',
        ToolUseBlock ''id2'' ''fetch'' ''y'']]) example_bot ''q'') =
     Some [(''id1'', ''searchx''), (''id2'', ''fetchy'')]"
  by code_simp

text \<open>
  The multi-server client dispatches every tool-use block. When a pass of its loop over a
  response ends without an error, the invocations it made are those of the tool-use
  blocks of the response, one for each block and in the order of the blocks, each sent to
  the session the registry has for the tool; and the tool results it appended to the
  transcript are as many, in the same order, each with the id of its block.
\<close>

theorem tool_uses_dispatched_in_order:
  assumes "complete w (length (requests st)) (transcript st) = Inr response"
    and "loop_body w b st = (Inr pq, st')"
  shows "\<exists>cl rs. calls st' = calls st @ cl \<and> map snd cl = map snd (tool_uses response) \<and>
     list_all (resolved b) cl \<and> length cl = length (tool_uses response) \<and>
     tool_results (messages st') = tool_results (messages st) @ rs \<and>
     map fst rs = map fst (tool_uses response) \<and> length rs = length (tool_uses response)"
proof -
  let ?st2 = "st\<lparr>requests := requests st @ [transcript st], heap := heap st @ [[]]\<rparr>"
  have "process_blocks w b response (length (heap st)) response True ?st2 = (Inr pq, st')"
    using assms(2) by (simp add: loop_body_def get_claude_response_Inr[OF assms(1)])
  from process_blocks_dispatch[OF this] obtain cl rs where
    i: "calls st' = calls st @ cl" "map snd cl = map snd (tool_uses response)"
       "list_all (resolved b) cl"
       "tool_results (messages st') = tool_results (messages st) @ rs"
       "map fst rs = map fst (tool_uses response)"
    by auto
  from i(2) have "length cl = length (tool_uses response)" by (metis length_map)
  moreover from i(5) have "length rs = length (tool_uses response)" by (metis length_map)
  ultimately show ?thesis using i by blast
qed

theorem tool_uses_dispatched_in_order_witness:
  "complete (script_world [[ToolUseBlock ''id1'' ''search'' ''x'', TextBlock ''t'',
        ToolUseBlock ''id2'' ''fetch'' ''y'']]) (length (requests (init ''q''))) (transcript (init ''q''))
     = Inr [ToolUseBlock ''id1'' ''search'' ''x'', TextBlock ''t'', ToolUseBlock ''id2'' ''fetch'' ''y''] \<and>
   fst (loop_body (script_world [[ToolUseBlock ''id1'' ''search'' ''x'', TextBlock ''t'',
        ToolUseBlock ''id2'' ''fetch'' ''y'']]) example_bot (init ''q'')) = Inr True \<and>
   map snd (calls (snd (loop_body (script_world [[ToolUseBlock ''id1'' ''search'' ''x'', TextBlock ''t'',
        ToolUseBlock ''id2'' ''fetch'' ''y'']]) example_bot (init ''q'')))) =
     [(''search'', ''x''), (''fetch'', ''y'')] \<and>
   map fst (tool_results (messages (snd (loop_body (script_world [[ToolUseBlock ''id1'' ''search'' ''x'',
        TextBlock ''t'', ToolUseBlock ''id2'' ''fetch'' ''y'']]) example_bot (init ''q''))))) =
     [''id1'', ''id2'']"
proof -
  let ?resp = "[ToolUseBlock ''id1'' ''search'' ''x'', TextBlock ''t'', ToolUseBlock ''id2'' ''fetch'' ''y'']"
  let ?w = "script_world [?resp]"
  have h1: "complete ?w (length (requests (init ''q''))) (transcript (init ''q'')) = Inr ?resp"
    by (simp add: script_world_def init_def)
  obtain r st' where l: "loop_body ?w example_bot (init ''q'') = (r, st')"
    by (cases "loop_body ?w example_bot (init ''q'')")
  have "fst (loop_body ?w example_bot (init ''q'')) = Inr True" by code_simp
  with l have r: "r = Inr True" by simp
  from tool_uses_dispatched_in_order[OF h1 l[unfolded r]] obtain cl rs where
    i: "calls st' = calls (init ''q'') @ cl" "map snd cl = map snd (tool_uses ?resp)"
       "tool_results (messages st') = tool_results (messages (init ''q'')) @ rs"
       "map fst rs = map fst (tool_uses ?resp)"
    by blast
  have "map snd (calls st') = [(''search'', ''x''), (''fetch'', ''y'')]"
    using i(1,2) by (simp add: init_def)
  moreover have "map fst (tool_results (messages st')) = [''id1'', ''id2'']"
    using i(3,4) by (simp add: init_def)
  ultimately show ?thesis using h1 l r by simp
qed

subsection \<open>The transcript of the multi-server client\<close>

text \<open>
  Claim C6 says that no message of the transcript is changed once it is appended. In the
  multi-server client the assistant message holds the list \<open>assistant_content\<close>
  itself, and the loop goes on appending to that list. For a response with two tool-use
  blocks: after the first block the transcript has the assistant message with that block
  and its tool result; after the second block the assistant message that was already
  there holds both blocks, and the same content was appended a second time. The next
  request sends that transcript to the model.
\<close>

theorem assistant_message_mutated_in_place:
  "transcript (snd (process_blocks
      (script_world [[ToolUseBlock ''id1'' ''search'' ''x'', ToolUseBlock ''id2'' ''fetch'' ''y'']])
      example_bot [ToolUseBlock ''id1'' ''search'' ''x'', ToolUseBlock ''id2'' ''fetch'' ''y''] 0
      [ToolUseBlock ''id1'' ''search'' ''x''] True
      ((init ''q'')\<lparr>requests := [[UserMessage ''q'']], heap := [[]]\<rparr>))) =
     [UserMessage ''q'', AssistantMessage [ToolUseBlock ''id1'' ''search'' ''x''],
      ToolResultMessage ''id1'' ''searchx''] \<and>
   transcript (snd (process_blocks
      (script_world [[ToolUseBlock ''id1'' ''search'' ''x'', ToolUseBlock ''id2'' ''fetch'' ''y'']])
      example_bot [ToolUseBlock ''id1'' ''search'' ''x'', ToolUseBlock ''id2'' ''fetch'' ''y''] 0
      [ToolUseBlock ''id1'' ''search'' ''x'', ToolUseBlock ''id2'' ''fetch'' ''y''] True
      ((init ''q'')\<lparr>requests := [[UserMessage ''q'']], heap := [[]]\<rparr>))) =
     [UserMessage ''q'',
      AssistantMessage [ToolUseBlock ''id1'' ''search'' ''x'', ToolUseBlock ''id2'' ''fetch'' ''y''],
      ToolResultMessage ''id1'' ''searchx'',
      AssistantMessage [ToolUseBlock ''id1'' ''search'' ''x'', ToolUseBlock ''id2'' ''fetch'' ''y''],
      ToolResultMessage ''id2'' ''fetchy''] \<and>
   transcript (snd (loop_body
      (script_world [[ToolUseBlock ''id1'' ''search'' ''x'', ToolUseBlock ''id2'' ''fetch'' ''y'']])
      example_bot (init ''q''))) =
     [UserMessage ''q'',
      AssistantMessage [ToolUseBlock ''id1'' ''search'' ''x'', ToolUseBlock ''id2'' ''fetch'' ''y''],
      ToolResultMessage ''id1'' ''searchx'',
      AssistantMessage [ToolUseBlock ''id1'' ''search'' ''x'', ToolUseBlock ''id2'' ''fetch'' ''y''],
      ToolResultMessage ''id2'' ''fetchy''] \<and>
   last (requests (snd (loop_body
      (script_world [[ToolUseBlock ''id1'' ''search'' ''x'', ToolUseBlock ''id2'' ''fetch'' ''y'']])
      example_bot (snd (loop_body
      (script_world [[ToolUseBlock ''id1'' ''search'' ''x'', ToolUseBlock ''id2'' ''fetch'' ''y'']])
      example_bot (init ''q'')))))) =
     [UserMessage ''q'',
      AssistantMessage [ToolUseBlock ''id1'' ''search'' ''x'', ToolUseBlock ''id2'' ''fetch'' ''y''],
      ToolResultMessage ''id1'' ''searchx'',
      AssistantMessage [ToolUseBlock ''id1'' ''search'' ''x'', ToolUseBlock ''id2'' ''fetch'' ''y''],
      ToolResultMessage ''id2'' ''fetchy'']"
  by code_simp

end
